theory Spec2Isabelle
  imports Complex_Main
begin

section \<open>JavaScript numbers\<close>

text \<open>
  The simulation computes on JavaScript numbers. They are modelled as the real numbers
  extended by the three non-finite values a division by zero can produce: \<open>Infinity\<close>,
  \<open>-Infinity\<close> and \<open>NaN\<close>. The operations of this section are exact on
  finite values: the rounding of a result to a double, with its overflow and underflow, is
  the function \<open>fl\<close> of the next section, and the sign of zero is not modelled (a
  zero divisor is taken as \<open>+0\<close>; the divisors of the program are square roots and a
  sample rate). The physics is written with the exact operations, so of the simulation
  only those properties are stated that hold whatever the rounding does: comparisons that
  rounding preserves, and the propagation of \<open>Infinity\<close> and \<open>NaN\<close>. The
  audio split, whose outcome depends on the rounding, rounds every result.
\<close>

datatype jsnum = Fin real | PInf | NInf | NaN

fun jneg :: "jsnum \<Rightarrow> jsnum" where
  "jneg (Fin a) = Fin (- a)"
| "jneg PInf = NInf"
| "jneg NInf = PInf"
| "jneg NaN = NaN"

fun jadd :: "jsnum \<Rightarrow> jsnum \<Rightarrow> jsnum" where
  "jadd NaN _ = NaN"
| "jadd _ NaN = NaN"
| "jadd (Fin a) (Fin b) = Fin (a + b)"
| "jadd PInf NInf = NaN"
| "jadd NInf PInf = NaN"
| "jadd PInf _ = PInf"
| "jadd _ PInf = PInf"
| "jadd NInf _ = NInf"
| "jadd _ NInf = NInf"

definition jsub :: "jsnum \<Rightarrow> jsnum \<Rightarrow> jsnum" where
  "jsub a b = jadd a (jneg b)"

fun jmul :: "jsnum \<Rightarrow> jsnum \<Rightarrow> jsnum" where
  "jmul NaN _ = NaN"
| "jmul _ NaN = NaN"
| "jmul (Fin a) (Fin b) = Fin (a * b)"
| "jmul (Fin a) PInf = (if a = 0 then NaN else if 0 < a then PInf else NInf)"
| "jmul (Fin a) NInf = (if a = 0 then NaN else if 0 < a then NInf else PInf)"
| "jmul PInf (Fin b) = (if b = 0 then NaN else if 0 < b then PInf else NInf)"
| "jmul NInf (Fin b) = (if b = 0 then NaN else if 0 < b then NInf else PInf)"
| "jmul PInf PInf = PInf"
| "jmul PInf NInf = NInf"
| "jmul NInf PInf = NInf"
| "jmul NInf NInf = PInf"

fun jdiv :: "jsnum \<Rightarrow> jsnum \<Rightarrow> jsnum" where
  "jdiv NaN _ = NaN"
| "jdiv _ NaN = NaN"
| "jdiv (Fin a) (Fin b) =
     (if b = 0 then (if a = 0 then NaN else if 0 < a then PInf else NInf)
      else Fin (a / b))"
| "jdiv (Fin a) PInf = Fin 0"
| "jdiv (Fin a) NInf = Fin 0"
| "jdiv PInf (Fin b) = (if 0 \<le> b then PInf else NInf)"
| "jdiv NInf (Fin b) = (if 0 \<le> b then NInf else PInf)"
| "jdiv PInf PInf = NaN"
| "jdiv PInf NInf = NaN"
| "jdiv NInf PInf = NaN"
| "jdiv NInf NInf = NaN"

fun jsqrt :: "jsnum \<Rightarrow> jsnum" where
  "jsqrt (Fin a) = (if a < 0 then NaN else Fin (sqrt a))"
| "jsqrt PInf = PInf"
| "jsqrt NInf = NaN"
| "jsqrt NaN = NaN"

text \<open>Comparisons: every comparison with \<open>NaN\<close> is false.\<close>

fun jlt :: "jsnum \<Rightarrow> jsnum \<Rightarrow> bool" where
  "jlt NaN _ = False"
| "jlt _ NaN = False"
| "jlt (Fin a) (Fin b) = (a < b)"
| "jlt _ NInf = False"
| "jlt PInf _ = False"
| "jlt NInf _ = True"
| "jlt (Fin a) PInf = True"

definition jle :: "jsnum \<Rightarrow> jsnum \<Rightarrow> bool" where
  "jle a b = (jlt a b \<or> (a = b \<and> a \<noteq> NaN))"

definition jge :: "jsnum \<Rightarrow> jsnum \<Rightarrow> bool" where
  "jge a b = jle b a"

text \<open>\<open>Math.min\<close> of two arguments: \<open>NaN\<close> if either is.\<close>

definition jmin :: "jsnum \<Rightarrow> jsnum \<Rightarrow> jsnum" where
  "jmin a b = (if a = NaN \<or> b = NaN then NaN else if jlt a b then a else b)"

fun jcos :: "jsnum \<Rightarrow> jsnum" where
  "jcos (Fin a) = Fin (cos a)"
| "jcos _ = NaN"

fun jsin :: "jsnum \<Rightarrow> jsnum" where
  "jsin (Fin a) = Fin (sin a)"
| "jsin _ = NaN"

text \<open>\<open>Math.atan2(y, x)\<close> on finite arguments.\<close>

definition atan2 :: "real \<Rightarrow> real \<Rightarrow> real" where
  "atan2 y x =
     (if 0 < x then arctan (y / x)
      else if x < 0 then (if 0 \<le> y then arctan (y / x) + pi else arctan (y / x) - pi)
      else if 0 < y then pi / 2
      else if y < 0 then - (pi / 2)
      else 0)"

fun jatan2 :: "jsnum \<Rightarrow> jsnum \<Rightarrow> jsnum" where
  "jatan2 NaN _ = NaN"
| "jatan2 _ NaN = NaN"
| "jatan2 (Fin y) (Fin x) = Fin (atan2 y x)"
| "jatan2 (Fin y) PInf = Fin 0"
| "jatan2 (Fin y) NInf = (if 0 \<le> y then Fin pi else Fin (- pi))"
| "jatan2 PInf (Fin x) = Fin (pi / 2)"
| "jatan2 NInf (Fin x) = Fin (- (pi / 2))"
| "jatan2 PInf PInf = Fin (pi / 4)"
| "jatan2 NInf PInf = Fin (- (pi / 4))"
| "jatan2 PInf NInf = Fin (3 * pi / 4)"
| "jatan2 NInf NInf = Fin (- (3 * pi / 4))"

type_synonym vec = "jsnum \<times> jsnum"

text \<open>The speed \<open>Math.sqrt(vx**2 + vy**2)\<close> of a velocity.\<close>

definition magnitude :: "vec \<Rightarrow> jsnum" where
  "magnitude v = jsqrt (jadd (jmul (fst v) (fst v)) (jmul (snd v) (snd v)))"


section \<open>Rounding to double precision\<close>

text \<open>
  A finite double is an integer multiple \<open>m * 2^e\<close> with \<open>|m| < 2^53\<close> and
  \<open>-1074 \<le> e \<le> 971\<close>. The result of an arithmetic operation is the double nearest
  to the exact result, a tie going to the even multiple, and an infinity when that
  multiple is \<open>2^1024\<close> or more in magnitude.
\<close>

definition round_to_even :: "real \<Rightarrow> int" where
  "round_to_even x =
     (let n = \<lfloor>x\<rfloor>; r = x - of_int n
      in if r < 1 / 2 then n else if 1 / 2 < r then n + 1 else if even n then n else n + 1)"

text \<open>
  The exponent \<open>e\<close> of the spacing of the doubles around \<open>x\<close>: the one with
  \<open>2^52 \<le> |x| / 2^e < 2^53\<close>, but not below \<open>-1074\<close> (the subnormal numbers)
  and not above \<open>971\<close>. It is searched from 0, downwards by doubling \<open>|x|\<close> and
  upwards by halving it; the number of steps left is the first argument.
\<close>

fun exp_down :: "nat \<Rightarrow> real \<Rightarrow> int \<Rightarrow> int" where
  "exp_down 0 x e = e"
| "exp_down (Suc n) x e = (if x < 2 ^ 52 then exp_down n (2 * x) (e - 1) else e)"

fun exp_up :: "nat \<Rightarrow> real \<Rightarrow> int \<Rightarrow> int" where
  "exp_up 0 x e = e"
| "exp_up (Suc n) x e = (if 2 ^ 53 \<le> x then exp_up n (x / 2) (e + 1) else e)"

definition ulp_exponent :: "real \<Rightarrow> int" where
  "ulp_exponent x =
     (if 2 ^ 53 \<le> \<bar>x\<bar> then exp_up 971 \<bar>x\<bar> 0 else exp_down 1074 \<bar>x\<bar> 0)"

definition fl :: "real \<Rightarrow> jsnum" where
  "fl x =
     (let e = ulp_exponent x;
          y = of_int (round_to_even (x / 2 powi e)) * 2 powi e
      in if 2 ^ 1024 \<le> y then PInf else if y \<le> - (2 ^ 1024) then NInf else Fin y)"

text \<open>The rounding of the result of an exact operation.\<close>

fun rnd :: "jsnum \<Rightarrow> jsnum" where
  "rnd (Fin x) = fl x"
| "rnd PInf = PInf"
| "rnd NInf = NInf"
| "rnd NaN = NaN"


section \<open>CircleSimulation: state\<close>

text \<open>
  The fields of \<open>class CircleSimulation\<close> that the physics, the drag interaction
  and the recording lifecycle read or write. The canvas contexts, the colour and the text
  elements only feed the drawing calls; drawing is recorded as the number of calls of
  \<open>draw\<close>. The browser objects the class drives are part of the state as well: the
  pending animation-frame requests, every \<open>MediaRecorder\<close> created so far (the field
  \<open>mediaRecorder\<close> refers to one of them by position), the recorders whose stop event
  is still to be delivered, and the invocations of the two callbacks (\<open>completions\<close>
  lists each call of a completion callback with the blob it received). A completion
  callback is identified by a number; an audio stream is the list of the
  \<open>enabled\<close> flags of its audio tracks.
\<close>

type_synonym blob = "nat list"

datatype recorder_state = Inactive | Recording

record media_recorder =
  rstate :: recorder_state
  handlers :: bool
  rtracks :: nat

record simulation =
  WIDTH :: nat
  HEIGHT :: nat
  GRAVITY :: jsnum
  VELOCITY_INCREASE_FACTOR :: jsnum
  VELOCITY_DECAY :: jsnum
  BALL_GROWTH_RATE :: jsnum
  previousPositions :: "vec list"
  ballRadius :: jsnum
  ballCenter :: vec
  ballVelocity :: vec
  collisionPoints :: "vec list"
  running :: bool
  startTime :: real
  elapsedTime :: real
  isDragging :: bool
  animationId :: nat
  frameRequests :: "nat list"
  frameCounter :: nat
  hasOnCollision :: bool
  collisionEvents :: nat
  drawCalls :: nat
  mediaRecorder :: "nat option"
  recorders :: "media_recorder list"
  chunks :: "blob list"
  onRecordingComplete :: "nat option"
  pendingStops :: "nat list"
  completions :: "(nat \<times> blob) list"
  currentAudioStream :: "bool list option"

definition INITIAL_BALL_RADIUS :: jsnum where
  "INITIAL_BALL_RADIUS = Fin 5"

definition MOTION_BLUR_STEPS :: nat where
  "MOTION_BLUR_STEPS = 5"

definition MAX_COLLISION_POINTS :: nat where
  "MAX_COLLISION_POINTS = 50"

text \<open>
  \<open>CIRCLE_RADIUS = Math.min(WIDTH, HEIGHT) / 2 - 125\<close> and
  \<open>MAX_BALL_RADIUS = CIRCLE_RADIUS * 1.5\<close> are read-only fields set by the constructor
  from the canvas size.
\<close>

definition CIRCLE_RADIUS :: "simulation \<Rightarrow> jsnum" where
  "CIRCLE_RADIUS s = Fin (real (min (WIDTH s) (HEIGHT s)) / 2 - 125)"

definition MAX_BALL_RADIUS :: "simulation \<Rightarrow> jsnum" where
  "MAX_BALL_RADIUS s = jmul (CIRCLE_RADIUS s) (Fin 1.5)"

definition circleCenter :: "simulation \<Rightarrow> vec" where
  "circleCenter s = (Fin (real (WIDTH s) / 2), Fin (real (HEIGHT s) / 2))"

text \<open>\<open>reset\<close>, with the reading of \<open>performance.now()\<close> as an argument.\<close>

definition reset :: "real \<Rightarrow> simulation \<Rightarrow> simulation" where
  "reset now s = s\<lparr>ballRadius := INITIAL_BALL_RADIUS,
      ballCenter := (Fin (real (WIDTH s) / 2), Fin (real (HEIGHT s) / 2.7)),
      ballVelocity := (Fin 0.8, Fin 0.8),
      collisionPoints := [],
      previousPositions := [],
      startTime := now,
      elapsedTime := 0\<rparr>"

text \<open>
  The constructor, for a canvas of the given width and height whose 2d contexts are
  available; \<open>cb\<close> tells whether an \<open>onCollision\<close> callback was passed.
\<close>

definition new_simulation :: "nat \<Rightarrow> nat \<Rightarrow> bool \<Rightarrow> real \<Rightarrow> simulation" where
  "new_simulation w h cb now = reset now
     \<lparr>WIDTH = w, HEIGHT = h, GRAVITY = Fin 0.4, VELOCITY_INCREASE_FACTOR = Fin 1.02,
      VELOCITY_DECAY = Fin 0.9995, BALL_GROWTH_RATE = Fin 1.015,
      previousPositions = [], ballRadius = INITIAL_BALL_RADIUS,
      ballCenter = (Fin 0, Fin 0), ballVelocity = (Fin 0, Fin 0), collisionPoints = [],
      running = False, startTime = 0, elapsedTime = 0, isDragging = False,
      animationId = 0, frameRequests = [], frameCounter = 0,
      hasOnCollision = cb, collisionEvents = 0, drawCalls = 0,
      mediaRecorder = None, recorders = [], chunks = [], onRecordingComplete = None,
      pendingStops = [], completions = [], currentAudioStream = None\<rparr>"

subsection \<open>Tuning setters\<close>

definition setGravity :: "jsnum \<Rightarrow> simulation \<Rightarrow> simulation" where
  "setGravity v s = s\<lparr>GRAVITY := v\<rparr>"

definition setVelocityIncrease :: "jsnum \<Rightarrow> simulation \<Rightarrow> simulation" where
  "setVelocityIncrease v s = s\<lparr>VELOCITY_INCREASE_FACTOR := jadd (Fin 1) v\<rparr>"

definition setVelocityDecay :: "jsnum \<Rightarrow> simulation \<Rightarrow> simulation" where
  "setVelocityDecay v s = s\<lparr>VELOCITY_DECAY := v\<rparr>"

definition setBallGrowthRate :: "jsnum \<Rightarrow> simulation \<Rightarrow> simulation" where
  "setBallGrowthRate v s = s\<lparr>BALL_GROWTH_RATE := jadd (Fin 1) v\<rparr>"

subsection \<open>The physics tick\<close>

text \<open>
  \<open>update\<close> is written here in the blocks of the source. \<open>integrate\<close> is the
  motion-blur history and the "Apply physics" block.
\<close>

definition integrate :: "simulation \<Rightarrow> simulation" where
  "integrate s =
     (let prev = (if MOTION_BLUR_STEPS \<le> length (previousPositions s)
                  then tl (previousPositions s) else previousPositions s) @ [ballCenter s];
          vy1 = jadd (snd (ballVelocity s)) (GRAVITY s);
          vx = jmul (fst (ballVelocity s)) (VELOCITY_DECAY s);
          vy = jmul vy1 (VELOCITY_DECAY s);
          cx = jadd (fst (ballCenter s)) vx;
          cy = jadd (snd (ballCenter s)) vy
      in s\<lparr>previousPositions := prev, ballVelocity := (vx, vy), ballCenter := (cx, cy)\<rparr>)"

text \<open>"Check collision": the offset \<open>(dx, dy)\<close> from the circle centre and its length.\<close>

definition offset :: "simulation \<Rightarrow> vec" where
  "offset s = (jsub (fst (ballCenter s)) (fst (circleCenter s)),
               jsub (snd (ballCenter s)) (snd (circleCenter s)))"

definition colliding :: "simulation \<Rightarrow> bool" where
  "colliding s = jge (magnitude (offset s)) (jsub (CIRCLE_RADIUS s) (ballRadius s))"

text \<open>"Handle collision": the unit normal, the reflection and the restitution.\<close>

definition reflect :: "vec \<Rightarrow> jsnum \<Rightarrow> simulation \<Rightarrow> simulation" where
  "reflect d distance s =
     (let nx = jdiv (fst d) distance;
          ny = jdiv (snd d) distance;
          dot = jadd (jmul (fst (ballVelocity s)) nx) (jmul (snd (ballVelocity s)) ny);
          restitution = Fin 0.95
      in s\<lparr>ballVelocity :=
            (jmul (jsub (fst (ballVelocity s)) (jmul (jmul (Fin 2) dot) nx)) restitution,
             jmul (jsub (snd (ballVelocity s)) (jmul (jmul (Fin 2) dot) ny)) restitution)\<rparr>)"

text \<open>"Grow ball".\<close>

definition grow :: "simulation \<Rightarrow> simulation" where
  "grow s =
     (if jlt (ballRadius s) (MAX_BALL_RADIUS s)
      then s\<lparr>ballRadius := jmin (jmul (ballRadius s) (BALL_GROWTH_RATE s)) (MAX_BALL_RADIUS s)\<rparr>
      else s)"

text \<open>"Increase velocity".\<close>

definition boost :: "simulation \<Rightarrow> simulation" where
  "boost s = s\<lparr>ballVelocity :=
      (jmul (fst (ballVelocity s)) (VELOCITY_INCREASE_FACTOR s),
       jmul (snd (ballVelocity s)) (VELOCITY_INCREASE_FACTOR s))\<rparr>"

text \<open>"Ensure minimum velocity".\<close>

definition minVelocity :: jsnum where
  "minVelocity = Fin 1.0"

definition ensureMinimumVelocity :: "simulation \<Rightarrow> simulation" where
  "ensureMinimumVelocity s =
     (let currentVelocity = magnitude (ballVelocity s)
      in if jlt currentVelocity minVelocity
         then (let scale = jdiv minVelocity currentVelocity
               in s\<lparr>ballVelocity :=
                     (jmul (fst (ballVelocity s)) scale, jmul (snd (ballVelocity s)) scale)\<rparr>)
         else s)"

text \<open>
  "Add collision point", "Manage collision points", "Update ball position" and the call
  of \<open>onCollision\<close>, counted in \<open>collisionEvents\<close>.
\<close>

definition place :: "vec \<Rightarrow> simulation \<Rightarrow> simulation" where
  "place d s =
     (let angle = jatan2 (snd d) (fst d);
          collisionX = jadd (fst (circleCenter s)) (jmul (CIRCLE_RADIUS s) (jcos angle));
          collisionY = jadd (snd (circleCenter s)) (jmul (CIRCLE_RADIUS s) (jsin angle));
          points = (if MAX_COLLISION_POINTS \<le> length (collisionPoints s)
                    then tl (collisionPoints s) else collisionPoints s)
                   @ [(collisionX, collisionY)];
          inner = jsub (CIRCLE_RADIUS s) (ballRadius s)
      in s\<lparr>collisionPoints := points,
            ballCenter := (jadd (fst (circleCenter s)) (jmul inner (jcos angle)),
                           jadd (snd (circleCenter s)) (jmul inner (jsin angle))),
            collisionEvents := (if hasOnCollision s then Suc (collisionEvents s)
                                else collisionEvents s)\<rparr>)"

text \<open>The collision branch as a whole, entered with the offset computed before it.\<close>

definition resolve :: "simulation \<Rightarrow> simulation" where
  "resolve s =
     (let d = offset s;
          distance = magnitude d
      in place d (ensureMinimumVelocity (boost (grow (reflect d distance s)))))"

definition update :: "real \<Rightarrow> simulation \<Rightarrow> simulation" where
  "update now s =
     (let s1 = integrate (s\<lparr>elapsedTime := (now - startTime s) / 1000\<rparr>)
      in if colliding s1 then resolve s1 else s1)"



subsection \<open>The frame loop and the drag interaction\<close>

definition draw :: "simulation \<Rightarrow> simulation" where
  "draw s = s\<lparr>drawCalls := Suc (drawCalls s)\<rparr>"

text \<open>
  \<open>animate\<close> requests the next frame: the browser hands out a fresh handle, kept in
  \<open>animationId\<close>, and remembers the request.
\<close>

definition animate :: "real \<Rightarrow> simulation \<Rightarrow> simulation" where
  "animate now s =
     (if \<not> running s then s
      else (let s1 = draw (update now s);
                h = Suc (frameCounter s1)
            in s1\<lparr>animationId := h, frameRequests := frameRequests s1 @ [h],
                  frameCounter := h\<rparr>))"

text \<open>The browser running the frame request \<open>h\<close>, if it is still pending.\<close>

definition frame :: "nat \<Rightarrow> real \<Rightarrow> simulation \<Rightarrow> simulation" where
  "frame h now s =
     (if h \<in> set (frameRequests s)
      then animate now (s\<lparr>frameRequests := removeAll h (frameRequests s)\<rparr>)
      else s)"

text \<open>\<open>start\<close> reads the clock itself (\<open>now\<close>) and again in the first tick (\<open>now'\<close>).\<close>

definition start :: "real \<Rightarrow> real \<Rightarrow> simulation \<Rightarrow> simulation" where
  "start now now' s =
     animate now'
       ((if \<not> running s then s\<lparr>startTime := now - elapsedTime s * 1000\<rparr> else s)
          \<lparr>running := True\<rparr>)"

definition stop :: "simulation \<Rightarrow> simulation" where
  "stop s = s\<lparr>running := False,
               frameRequests := removeAll (animationId s) (frameRequests s)\<rparr>"

definition handleMouseDown :: "jsnum \<Rightarrow> jsnum \<Rightarrow> simulation \<Rightarrow> simulation" where
  "handleMouseDown x y s =
     (let dx = jsub x (fst (ballCenter s));
          dy = jsub y (snd (ballCenter s));
          distance = magnitude (dx, dy)
      in if jle distance (ballRadius s) then stop (s\<lparr>isDragging := True\<rparr>) else s)"

definition handleMouseMove :: "jsnum \<Rightarrow> jsnum \<Rightarrow> simulation \<Rightarrow> simulation" where
  "handleMouseMove x y s =
     (if isDragging s
      then draw (s\<lparr>ballCenter := (x, y), ballVelocity := (Fin 0, Fin 0)\<rparr>)
      else s)"

definition handleMouseUp :: "real \<Rightarrow> real \<Rightarrow> simulation \<Rightarrow> simulation" where
  "handleMouseUp now now' s =
     (if isDragging s then start now now' (s\<lparr>isDragging := False\<rparr>) else s)"

subsection \<open>Recording\<close>

text \<open>
  \<open>cleanupResources\<close>: besides the buffers and the ball it detaches the two handlers of
  the current recorder and drops the reference to it; it does not stop the recorder.
\<close>

definition cleanupResources :: "simulation \<Rightarrow> simulation" where
  "cleanupResources s =
     s\<lparr>collisionPoints := [], previousPositions := [], chunks := [],
       ballRadius := INITIAL_BALL_RADIUS, ballVelocity := (Fin 0.8, Fin 0.8),
       recorders := (case mediaRecorder s of
                       None \<Rightarrow> recorders s
                     | Some i \<Rightarrow> (recorders s)[i := (recorders s ! i)\<lparr>handlers := False\<rparr>]),
       mediaRecorder := None\<rparr>"

text \<open>
  \<open>setupRecording\<close>: the new recorder gets the canvas's video track and a clone of
  every audio track of the stream passed in; it starts out \<open>inactive\<close>.
\<close>

definition setupRecording :: "bool list option \<Rightarrow> simulation \<Rightarrow> simulation" where
  "setupRecording audioStream s =
     (let s1 = cleanupResources s;
          audio = (case audioStream of None \<Rightarrow> [] | Some tracks \<Rightarrow> tracks);
          s2 = (if 0 < length audio then s1\<lparr>currentAudioStream := audioStream\<rparr> else s1)
      in s2\<lparr>recorders := recorders s2
                 @ [\<lparr>rstate = Inactive, handlers = True, rtracks = 1 + length audio\<rparr>],
            mediaRecorder := Some (length (recorders s2))\<rparr>)"

definition startRecording :: "nat option \<Rightarrow> bool list option \<Rightarrow> simulation \<Rightarrow> simulation" where
  "startRecording onComplete audioStream s =
     (let s1 = setupRecording audioStream s
      in case mediaRecorder s1 of
           None \<Rightarrow> s1
         | Some i \<Rightarrow>
             if rstate (recorders s1 ! i) = Inactive
             then s1\<lparr>chunks := [], onRecordingComplete := onComplete,
                     recorders := (recorders s1)[i := (recorders s1 ! i)\<lparr>rstate := Recording\<rparr>]\<rparr>
             else s1)"

text \<open>
  \<open>stopRecording\<close>: \<open>MediaRecorder.stop()\<close> makes the recorder inactive at once and
  delivers its last data and the stop event later.
\<close>

definition stopRecording :: "simulation \<Rightarrow> simulation" where
  "stopRecording s =
     (case mediaRecorder s of
        None \<Rightarrow> s
      | Some i \<Rightarrow>
          if rstate (recorders s ! i) = Recording
          then s\<lparr>recorders := (recorders s)[i := (recorders s ! i)\<lparr>rstate := Inactive\<rparr>],
                 pendingStops := pendingStops s @ [i]\<rparr>
          else s)"

text \<open>The handlers installed by \<open>setupRecording\<close>, run for recorder \<open>i\<close>.\<close>

definition ondataavailable :: "nat \<Rightarrow> blob \<Rightarrow> simulation \<Rightarrow> simulation" where
  "ondataavailable i d s =
     (if handlers (recorders s ! i) \<and> 0 < length d then s\<lparr>chunks := chunks s @ [d]\<rparr> else s)"

definition onstop :: "nat \<Rightarrow> simulation \<Rightarrow> simulation" where
  "onstop i s =
     (if handlers (recorders s ! i)
      then (let finalBlob = concat (chunks s);
                s1 = (case onRecordingComplete s of
                        None \<Rightarrow> s
                      | Some cb \<Rightarrow> s\<lparr>completions := completions s @ [(cb, finalBlob)]\<rparr>);
                s2 = cleanupResources s1
            in s2\<lparr>currentAudioStream :=
                    map_option (map (\<lambda>enabled. True)) (currentAudioStream s2)\<rparr>)
      else s)"

text \<open>The browser delivering the data \<open>d\<close> and the stop event of a stopped recorder.\<close>

definition finalize :: "nat \<Rightarrow> blob \<Rightarrow> simulation \<Rightarrow> simulation" where
  "finalize i d s =
     (if i \<in> set (pendingStops s)
      then onstop i (ondataavailable i d (s\<lparr>pendingStops := remove1 i (pendingStops s)\<rparr>))
      else s)"

text \<open>A recording is active when the current recorder is in state \<open>recording\<close>.\<close>

definition isRecording :: "simulation \<Rightarrow> bool" where
  "isRecording s =
     (case mediaRecorder s of None \<Rightarrow> False | Some i \<Rightarrow> rstate (recorders s ! i) = Recording)"

definition activeRecorders :: "simulation \<Rightarrow> nat" where
  "activeRecorders s = length (filter (\<lambda>r. rstate r = Recording) (recorders s))"


section \<open>AudioManager\<close>

text \<open>
  The numbers the audio manager keeps (the segment duration, the clock reading of the last
  playback) and the sample rate of a buffer are real numbers; where the program computes
  with one of them, it computes with the double nearest to it, \<open>fl\<close> of it, as it
  does with a literal of the source or a parsed input. An \<open>AudioBuffer\<close> is its
  sample rate, its length in sample frames and the samples of each channel.
\<close>

record audio_buffer =
  sampleRate :: real
  blength :: nat
  channelData :: "real list list"

definition numberOfChannels :: "audio_buffer \<Rightarrow> nat" where
  "numberOfChannels b = length (channelData b)"

text \<open>
  \<open>interface AudioSegment\<close>. Its field \<open>startTime\<close> is named \<open>segStartTime\<close>
  here, apart from the simulation's field.
\<close>

record audio_segment =
  buffer :: audio_buffer
  segStartTime :: jsnum
  duration :: real

text \<open>An \<open>AudioBufferSourceNode\<close> created by \<open>playNextSegment\<close>.\<close>

record buffer_source =
  sbuffer :: "audio_buffer option"
  started :: bool
  stopped :: bool
  onended :: bool

record audio_manager =
  audioTracks :: "audio_segment list list"
  currentTrackIndex :: nat
  segments :: "audio_segment list"
  currentSegmentIndex :: nat
  isProcessing :: bool
  currentSource :: "nat option"
  isPlaying :: bool
  segmentDuration :: real
  lastPlayStartTime :: real
  contextSuspended :: bool
  sources :: "buffer_source list"

definition MAX_TRACKS :: nat where
  "MAX_TRACKS = 10"

text \<open>The constructor; \<open>suspended\<close> is the state of the audio context it is given.\<close>

definition new_audio_manager :: "bool \<Rightarrow> audio_manager" where
  "new_audio_manager suspended =
     \<lparr>audioTracks = [], currentTrackIndex = 0, segments = [], currentSegmentIndex = 0,
      isProcessing = False, currentSource = None, isPlaying = False,
      segmentDuration = 0.3, lastPlayStartTime = 0, contextSuspended = suspended,
      sources = []\<rparr>"

subsection \<open>The platform operations the manager calls\<close>

datatype dom_error =
  NotSupportedError | RangeError | IndexSizeError | TypeError | DecodeError | ResumeError

datatype audio_error =
  InvalidAudioFormat | MaximumTracksReached nat | FailedToProcess dom_error

text \<open>
  A number passed where the platform expects an \<open>unsigned long\<close> is truncated towards
  zero and reduced modulo \<open>2^32\<close>; \<open>NaN\<close> and the infinities become 0.
\<close>

definition trunc :: "real \<Rightarrow> int" where
  "trunc x = (if 0 \<le> x then \<lfloor>x\<rfloor> else \<lceil>x\<rceil>)"

fun to_unsigned_long :: "jsnum \<Rightarrow> nat" where
  "to_unsigned_long (Fin x) = nat (trunc x mod 2 ^ 32)"
| "to_unsigned_long _ = 0"

text \<open>
  \<open>createBuffer\<close> rejects a buffer without channels or without frames. The manager
  passes it the channel count and the sample rate of a buffer that exists, so the checks of
  their upper bounds are left out.
\<close>

definition createBuffer :: "nat \<Rightarrow> nat \<Rightarrow> real \<Rightarrow> dom_error + audio_buffer" where
  "createBuffer n len rate =
     (if n = 0 \<or> len = 0 then Inl NotSupportedError
      else Inr \<lparr>sampleRate = rate, blength = len, channelData = replicate n (replicate len 0)\<rparr>)"

definition getChannelData :: "audio_buffer \<Rightarrow> nat \<Rightarrow> dom_error + real list" where
  "getChannelData b c =
     (if c < numberOfChannels b then Inr (channelData b ! c) else Inl IndexSizeError)"

text \<open>
  \<open>TypedArray.prototype.slice(start, end)\<close>: both indices are truncated (\<open>NaN\<close>
  to 0, an infinity stays), a negative one counts from the end, and both are clamped to
  the array.
\<close>

fun relative_index :: "jsnum \<Rightarrow> nat \<Rightarrow> nat" where
  "relative_index (Fin x) len =
     (let r = trunc x in if r < 0 then nat (max (int len + r) 0) else min (nat r) len)"
| "relative_index PInf len = len"
| "relative_index NInf len = 0"
| "relative_index NaN len = 0"

definition slice :: "real list \<Rightarrow> jsnum \<Rightarrow> jsnum \<Rightarrow> real list" where
  "slice xs a b =
     (let k = relative_index a (length xs);
          final = relative_index b (length xs)
      in take (final - k) (drop k xs))"

text \<open>
  \<open>TypedArray.prototype.set(source, offset)\<close>: a \<open>RangeError\<close> when the source does
  not fit into the target at the offset.
\<close>

definition typed_set :: "real list \<Rightarrow> real list \<Rightarrow> nat \<Rightarrow> dom_error + real list" where
  "typed_set target src off =
     (if length target < length src + off then Inl RangeError
      else Inr (take off target @ src @ drop (off + length src) target))"

subsection \<open>Splitting a buffer into segments\<close>

definition isValidAudioFormat :: "string \<Rightarrow> bool" where
  "isValidAudioFormat ftype =
     (ftype \<in> set [''audio/mp3'', ''audio/mpeg'', ''audio/wav'', ''audio/ogg''])"

text \<open>
  The inner loop of \<open>splitAudioIntoSegments\<close> over the channels: the slice of each
  channel of the source is written to the start of the same channel of the segment buffer.
\<close>

fun copy_slice :: "audio_buffer \<Rightarrow> jsnum \<Rightarrow> jsnum \<Rightarrow> nat list \<Rightarrow> audio_buffer
    \<Rightarrow> dom_error + audio_buffer" where
  "copy_slice audioBuffer i segmentLength [] segmentBuffer = Inr segmentBuffer"
| "copy_slice audioBuffer i segmentLength (channel # rest) segmentBuffer =
     (case getChannelData audioBuffer channel of
        Inl e \<Rightarrow> Inl e
      | Inr chData \<Rightarrow>
          (case getChannelData segmentBuffer channel of
             Inl e \<Rightarrow> Inl e
           | Inr segmentData \<Rightarrow>
               (case typed_set segmentData (slice chData i (rnd (jadd i segmentLength))) 0 of
                  Inl e \<Rightarrow> Inl e
                | Inr written \<Rightarrow>
                    copy_slice audioBuffer i segmentLength rest
                      (segmentBuffer\<lparr>channelData :=
                         (channelData segmentBuffer)[channel := written]\<rparr>))))"

text \<open>The body of the outer loop: the segment that starts at sample position \<open>i\<close>.\<close>

definition make_segment :: "real \<Rightarrow> audio_buffer \<Rightarrow> jsnum \<Rightarrow> jsnum
    \<Rightarrow> dom_error + audio_segment" where
  "make_segment segDuration audioBuffer samplesPerSegment i =
     (let segmentLength =
            jmin samplesPerSegment (rnd (jsub (Fin (real (blength audioBuffer))) i))
      in case createBuffer (numberOfChannels audioBuffer) (to_unsigned_long segmentLength)
                (sampleRate audioBuffer) of
           Inl e \<Rightarrow> Inl e
         | Inr segmentBuffer \<Rightarrow>
             (case copy_slice audioBuffer i segmentLength
                     [0..<numberOfChannels audioBuffer] segmentBuffer of
                Inl e \<Rightarrow> Inl e
              | Inr filled \<Rightarrow>
                  Inr \<lparr>buffer = filled,
                       segStartTime = rnd (jdiv i (fl (sampleRate audioBuffer))),
                       duration = segDuration\<rparr>))"

text \<open>
  The outer loop \<open>for (let i = 0; i < audioBuffer.length; i += samplesPerSegment)\<close>.
  With a step that is not positive it need not end, so its result is optional:
  \<open>None\<close> stands for a loop that does not return.
\<close>

partial_function (option) split_loop :: "real \<Rightarrow> audio_buffer \<Rightarrow> jsnum \<Rightarrow> jsnum
    \<Rightarrow> audio_segment list \<Rightarrow> (dom_error + audio_segment list) option" where
  "split_loop segDuration audioBuffer samplesPerSegment i segs =
     (if jlt i (Fin (real (blength audioBuffer)))
      then (case make_segment segDuration audioBuffer samplesPerSegment i of
              Inl e \<Rightarrow> Some (Inl e)
            | Inr seg \<Rightarrow>
                split_loop segDuration audioBuffer samplesPerSegment
                  (rnd (jadd i samplesPerSegment)) (segs @ [seg]))
      else Some (Inr segs))"

text \<open>
  \<open>const samplesPerSegment = this.segmentDuration * sampleRate\<close>: the product of two
  doubles, rounded, and not made a whole number.
\<close>

definition splitAudioIntoSegments :: "audio_manager \<Rightarrow> audio_buffer
    \<Rightarrow> (dom_error + audio_segment list) option" where
  "splitAudioIntoSegments m audioBuffer =
     split_loop (segmentDuration m) audioBuffer
       (rnd (jmul (fl (segmentDuration m)) (fl (sampleRate audioBuffer)))) (Fin 0) []"


subsection \<open>Adding a track\<close>

text \<open>
  \<open>processAudioFile\<close> for a file of the given MIME type. What the platform answers is
  an argument: \<open>decoded\<close> is the outcome of reading and decoding the file,
  \<open>resumes\<close> tells whether a suspended context resumes. The result is the error
  thrown, if any, with the state the manager is left in. The function is run here from
  call to return, with nothing else scheduled in between.
\<close>

definition processAudioFile :: "string \<Rightarrow> dom_error + audio_buffer \<Rightarrow> bool \<Rightarrow> audio_manager
    \<Rightarrow> (audio_error option \<times> audio_manager) option" where
  "processAudioFile ftype decoded resumes m =
     (if \<not> isValidAudioFormat ftype then Some (Some InvalidAudioFormat, m)
      else if MAX_TRACKS \<le> length (audioTracks m)
      then Some (Some (MaximumTracksReached MAX_TRACKS), m)
      else (let m1 = m\<lparr>isProcessing := True\<rparr>
            in case decoded of
                 Inl e \<Rightarrow> Some (Some (FailedToProcess e), m1\<lparr>isProcessing := False\<rparr>)
               | Inr audioBuffer \<Rightarrow>
                   (case splitAudioIntoSegments m1 audioBuffer of
                      None \<Rightarrow> None
                    | Some (Inl e) \<Rightarrow>
                        Some (Some (FailedToProcess e), m1\<lparr>isProcessing := False\<rparr>)
                    | Some (Inr newSegments) \<Rightarrow>
                        (let m2 = m1\<lparr>audioTracks := audioTracks m1 @ [newSegments]\<rparr>;
                             m3 = (if length (audioTracks m2) = 1
                                   then m2\<lparr>segments := newSegments\<rparr> else m2);
                             m4 = m3\<lparr>isProcessing := False\<rparr>
                         in if contextSuspended m4
                            then (if resumes then Some (None, m4\<lparr>contextSuspended := False\<rparr>)
                                  else Some (Some (FailedToProcess ResumeError), m4))
                            else Some (None, m4)))))"

subsection \<open>Changing the segment duration\<close>

text \<open>
  "Reconstruct original audio buffer": the inner loop over the channels writes one
  segment at the running offset, the outer loop walks the segments of the track.
\<close>

fun copy_segment :: "audio_segment \<Rightarrow> nat \<Rightarrow> nat list \<Rightarrow> audio_buffer
    \<Rightarrow> dom_error + audio_buffer" where
  "copy_segment segment off [] fullBuffer = Inr fullBuffer"
| "copy_segment segment off (channel # rest) fullBuffer =
     (case getChannelData fullBuffer channel of
        Inl e \<Rightarrow> Inl e
      | Inr target \<Rightarrow>
          (case getChannelData (buffer segment) channel of
             Inl e \<Rightarrow> Inl e
           | Inr src \<Rightarrow>
               (case typed_set target src off of
                  Inl e \<Rightarrow> Inl e
                | Inr written \<Rightarrow>
                    copy_segment segment off rest
                      (fullBuffer\<lparr>channelData :=
                         (channelData fullBuffer)[channel := written]\<rparr>))))"

fun copy_segments :: "audio_segment list \<Rightarrow> nat \<Rightarrow> nat \<Rightarrow> audio_buffer
    \<Rightarrow> dom_error + audio_buffer" where
  "copy_segments [] channels off fullBuffer = Inr fullBuffer"
| "copy_segments (segment # rest) channels off fullBuffer =
     (case copy_segment segment off [0..<channels] fullBuffer of
        Inl e \<Rightarrow> Inl e
      | Inr fb \<Rightarrow> copy_segments rest channels (off + blength (buffer segment)) fb)"

text \<open>The reconstruction of a track that has a first segment.\<close>

definition reconstruct :: "audio_segment list \<Rightarrow> dom_error + audio_buffer" where
  "reconstruct track =
     (let firstSegment = hd track;
          rate = sampleRate (buffer firstSegment);
          totalLength = foldl (\<lambda>acc segment. acc + blength (buffer segment)) 0 track;
          channels = numberOfChannels (buffer firstSegment)
      in case createBuffer channels (to_unsigned_long (Fin (real totalLength))) rate of
           Inl e \<Rightarrow> Inl e
         | Inr fullBuffer \<Rightarrow> copy_segments track channels 0 fullBuffer)"

text \<open>
  The loop of \<open>reprocessTracks\<close> over the old tracks. An error ends it and leaves the
  manager with the tracks rebuilt so far.
\<close>

fun reprocess_loop :: "audio_segment list list \<Rightarrow> audio_manager
    \<Rightarrow> (dom_error option \<times> audio_manager) option" where
  "reprocess_loop [] m = Some (None, m)"
| "reprocess_loop (track # rest) m =
     (if 0 < length track
      then (case reconstruct track of
              Inl e \<Rightarrow> Some (Some e, m)
            | Inr fullBuffer \<Rightarrow>
                (case splitAudioIntoSegments m fullBuffer of
                   None \<Rightarrow> None
                 | Some (Inl e) \<Rightarrow> Some (Some e, m)
                 | Some (Inr newSegments) \<Rightarrow>
                     (let m1 = m\<lparr>audioTracks := audioTracks m @ [newSegments]\<rparr>;
                          m2 = (if length (audioTracks m1) = 1
                                then m1\<lparr>segments := newSegments\<rparr> else m1)
                      in reprocess_loop rest m2)))
      else reprocess_loop rest m)"

text \<open>
  \<open>reprocessTracks\<close>, run until its promise settles: the result is the error it is
  rejected with, if any, and the state then.
\<close>

definition reprocessTracks :: "audio_manager
    \<Rightarrow> (dom_error option \<times> audio_manager) option" where
  "reprocessTracks m =
     (let oldTracks = audioTracks m
      in reprocess_loop oldTracks (m\<lparr>audioTracks := [], segments := []\<rparr>))"

definition setSegmentDuration :: "real \<Rightarrow> audio_manager
    \<Rightarrow> (dom_error option \<times> audio_manager) option" where
  "setSegmentDuration d m =
     (if 0 < d then reprocessTracks (m\<lparr>segmentDuration := d\<rparr>) else Some (None, m))"

subsection \<open>Playing on a collision\<close>



section \<open>Predicates and example states of the properties\<close>

text \<open>
  The radius invariant of the physics state: \<open>INITIAL_BALL_RADIUS \<le> ballRadius \<le> MAX_BALL_RADIUS\<close>.
\<close>

definition radius_in_range :: "simulation \<Rightarrow> bool" where
  "radius_in_range s = (jle INITIAL_BALL_RADIUS (ballRadius s) \<and> jle (ballRadius s) (MAX_BALL_RADIUS s))"

text \<open>
  The state inside the collision branch just before "Ensure minimum velocity": after the
  reflection, the restitution, the growth and the velocity boost.
\<close>

definition pre_floor :: "simulation \<Rightarrow> simulation" where
  "pre_floor s = boost (grow (reflect (offset s) (magnitude (offset s)) s))"

text \<open>
  The state at the collision check of \<open>update\<close>: the clock is read and the motion is
  integrated.
\<close>

definition entry :: "real \<Rightarrow> simulation \<Rightarrow> simulation" where
  "entry now s = integrate (s\<lparr>elapsedTime := (now - startTime s) / 1000\<rparr>)"

text \<open>
  A state reached through the public interface on the 1080 x 1920 canvas: gravity is set
  to 0, the ball is pressed at its centre and dragged to (540, 1370), on the circle of
  radius 410 on which its centre collides.
\<close>

definition stalled_at_wall :: simulation where
  "stalled_at_wall =
     handleMouseMove (Fin 540) (Fin 1370)
       (handleMouseDown (Fin 540) (Fin (1920 / 2.7))
          (setGravity (Fin 0) (new_simulation 1080 1920 True 0)))"

text \<open>
  The ball of a new simulation dragged to (540, 1370), with the default gravity.
\<close>

definition dropped_at_wall :: simulation where
  "dropped_at_wall =
     handleMouseMove (Fin 540) (Fin 1370)
       (handleMouseDown (Fin 540) (Fin (1920 / 2.7)) (new_simulation 1080 1920 True 0))"



text \<open>
  A mono buffer of \<open>n\<close> zero samples at 44100 Hz.
\<close>

definition silence :: "nat \<Rightarrow> audio_buffer" where
  "silence n = \<lparr>sampleRate = 44100, blength = n, channelData = [replicate n 0]\<rparr>"

text \<open>
  A manager that already holds \<open>MAX_TRACKS\<close> tracks.
\<close>

definition full_manager :: audio_manager where
  "full_manager =
     (new_audio_manager False)
       \<lparr>audioTracks := replicate 10
            [\<lparr>buffer = silence 4410, segStartTime = Fin 0, duration = 0.3\<rparr>],
        segments := [\<lparr>buffer = silence 4410, segStartTime = Fin 0, duration = 0.3\<rparr>]\<rparr>"

text \<open>
  The target of \<open>set(source, offset)\<close> after the write.
\<close>

definition write_at :: "nat \<Rightarrow> real list \<Rightarrow> real list \<Rightarrow> real list" where
  "write_at off src target = take off target @ src @ drop (off + length src) target"

text \<open>
  An \<open>AudioBuffer\<close> as the platform makes them: at least one channel, at least one
  frame and fewer than \<open>2^32\<close> (the length is an \<open>unsigned long\<close>), a positive
  sample rate, and every channel as long as the buffer.
\<close>

definition well_formed :: "audio_buffer \<Rightarrow> bool" where
  "well_formed b =
     (0 < numberOfChannels b \<and> 0 < blength b \<and> blength b < 2 ^ 32 \<and> 0 < sampleRate b
      \<and> (\<forall>c\<in>set (channelData b). length c = blength b))"

text \<open>
  The segment of at most \<open>k\<close> samples that starts at sample \<open>p\<close> of a buffer.
\<close>

definition segment_at :: "real \<Rightarrow> audio_buffer \<Rightarrow> nat \<Rightarrow> nat \<Rightarrow> audio_segment" where
  "segment_at d b k p =
     \<lparr>buffer = \<lparr>sampleRate = sampleRate b, blength = min k (blength b - p),
                channelData = map (\<lambda>c. take k (drop p c)) (channelData b)\<rparr>,
      segStartTime = rnd (jdiv (Fin (real p)) (fl (sampleRate b))), duration = d\<rparr>"

text \<open>
  The split the specification describes, for a segment of \<open>k\<close> whole samples:
  consecutive segments of \<open>k\<close> samples, the last one holding the remainder.
\<close>

definition consecutive_segments :: "real \<Rightarrow> audio_buffer \<Rightarrow> nat \<Rightarrow> audio_segment list" where
  "consecutive_segments d b k =
     map (\<lambda>j. segment_at d b k (j * k)) [0..<(blength b + k - 1) div k]"

text \<open>
  The sample buffers of that split.
\<close>

definition consecutive_buffers :: "audio_buffer \<Rightarrow> nat \<Rightarrow> audio_buffer list" where
  "consecutive_buffers b k =
     map (\<lambda>j. \<lparr>sampleRate = sampleRate b, blength = min k (blength b - j * k),
                channelData = map (\<lambda>c. take k (drop (j * k) c)) (channelData b)\<rparr>)
       [0..<(blength b + k - 1) div k]"

text \<open>
  The attribute \<open>duration\<close> of an \<open>AudioBuffer\<close>: its length in seconds.
\<close>

definition bufferDuration :: "audio_buffer \<Rightarrow> real" where
  "bufferDuration b = real (blength b) / sampleRate b"

text \<open>
  The manager after one upload of a 1.0 s mono buffer at 44100 Hz with the initial
  segment duration 0.3 (lemma \<open>upload_one_track\<close>).
\<close>

definition one_track :: audio_manager where
  "one_track =
     (new_audio_manager False)
       \<lparr>audioTracks := [consecutive_segments 0.3 (silence 44100) 13230],
        segments := consecutive_segments 0.3 (silence 44100) 13230\<rparr>"

text \<open>
  A new manager whose segment duration has been set to 0.7.
\<close>

definition seven_tenths :: audio_manager where
  "seven_tenths = (new_audio_manager False)\<lparr>segmentDuration := 0.7\<rparr>"

text \<open>
  The number of sample frames of a track: the sum that \<open>reprocessTracks\<close> computes
  with \<open>reduce\<close>.
\<close>

definition totalLength :: "audio_segment list \<Rightarrow> nat" where
  "totalLength track = sum_list (map (\<lambda>s. blength (buffer s)) track)"

text \<open>
  The buffer the specification describes for the reconstruction: the segments of a track
  concatenated in order, channel by channel, with the sample rate and the channel count of
  the first segment.
\<close>

definition joined :: "audio_segment list \<Rightarrow> audio_buffer" where
  "joined track =
     \<lparr>sampleRate = sampleRate (buffer (hd track)), blength = totalLength track,
      channelData = map (\<lambda>c. concat (map (\<lambda>s. channelData (buffer s) ! c) track))
                      [0..<numberOfChannels (buffer (hd track))]\<rparr>"

text \<open>
  A track as the manager holds them: at least one segment, fewer than \<open>2^32\<close>
  sample frames in all, and segments that agree on the channel count and the sample rate
  and whose channels are as long as their buffers.
\<close>

definition uniform_track :: "audio_segment list \<Rightarrow> bool" where
  "uniform_track track =
     (track \<noteq> [] \<and> 0 < numberOfChannels (buffer (hd track)) \<and> 0 < totalLength track
      \<and> totalLength track < 2 ^ 32 \<and> 0 < sampleRate (buffer (hd track))
      \<and> (\<forall>s\<in>set track.
            numberOfChannels (buffer s) = numberOfChannels (buffer (hd track))
            \<and> sampleRate (buffer s) = sampleRate (buffer (hd track))
            \<and> (\<forall>c\<in>set (channelData (buffer s)). length c = blength (buffer s))))"

text \<open>
  The step of the split for \<open>d\<close> seconds of a track, as a number of sample frames.
\<close>

definition samplesPerSegment :: "real \<Rightarrow> audio_segment list \<Rightarrow> nat" where
  "samplesPerSegment d track =
     to_unsigned_long (rnd (jmul (fl d) (fl (sampleRate (buffer (hd track))))))"

text \<open>
  The step the program computes for \<open>d\<close> seconds of the track, the rounded product
  \<open>segmentDuration * sampleRate\<close>, is a whole, positive number of sample frames.
\<close>

definition whole_samples :: "real \<Rightarrow> audio_segment list \<Rightarrow> bool" where
  "whole_samples d track =
     (0 < samplesPerSegment d track \<and> samplesPerSegment d track < 2 ^ 32
      \<and> rnd (jmul (fl d) (fl (sampleRate (buffer (hd track)))))
          = Fin (real (samplesPerSegment d track)))"

text \<open>
  The new segments of a track for the segment duration \<open>d\<close>.
\<close>

definition resplit :: "real \<Rightarrow> audio_segment list \<Rightarrow> audio_segment list" where
  "resplit d track = consecutive_segments d (joined track) (samplesPerSegment d track)"

section \<open>Properties\<close>

subsection \<open>The fields of a new simulation\<close>

lemma new_simulation_fields:
  "WIDTH (new_simulation w h cb now) = w" "HEIGHT (new_simulation w h cb now) = h"
  "GRAVITY (new_simulation w h cb now) = Fin 0.4"
  "VELOCITY_INCREASE_FACTOR (new_simulation w h cb now) = Fin 1.02"
  "VELOCITY_DECAY (new_simulation w h cb now) = Fin 0.9995"
  "BALL_GROWTH_RATE (new_simulation w h cb now) = Fin 1.015"
  "ballRadius (new_simulation w h cb now) = Fin 5"
  "ballCenter (new_simulation w h cb now) = (Fin (real w / 2), Fin (real h / 2.7))"
  "ballVelocity (new_simulation w h cb now) = (Fin 0.8, Fin 0.8)"
  "previousPositions (new_simulation w h cb now) = []"
  "collisionPoints (new_simulation w h cb now) = []"
  "isDragging (new_simulation w h cb now) = False"
  "running (new_simulation w h cb now) = False"
  by (simp_all add: new_simulation_def reset_def INITIAL_BALL_RADIUS_def)

subsection \<open>The ball radius\<close>

lemma MAX_BALL_RADIUS_Fin: "MAX_BALL_RADIUS s = Fin ((real (min (WIDTH s) (HEIGHT s)) / 2 - 125) * 1.5)"
  by (simp add: MAX_BALL_RADIUS_def CIRCLE_RADIUS_def)

lemma place_fields:
  "ballRadius (place d s) = ballRadius s" "WIDTH (place d s) = WIDTH s"
  "HEIGHT (place d s) = HEIGHT s" "BALL_GROWTH_RATE (place d s) = BALL_GROWTH_RATE s"
  by (simp_all add: place_def Let_def)

lemma floor_fields:
  "ballRadius (ensureMinimumVelocity s) = ballRadius s"
  "WIDTH (ensureMinimumVelocity s) = WIDTH s" "HEIGHT (ensureMinimumVelocity s) = HEIGHT s"
  "BALL_GROWTH_RATE (ensureMinimumVelocity s) = BALL_GROWTH_RATE s"
  by (simp_all add: ensureMinimumVelocity_def Let_def)

lemma boost_fields:
  "ballRadius (boost s) = ballRadius s" "WIDTH (boost s) = WIDTH s"
  "HEIGHT (boost s) = HEIGHT s" "BALL_GROWTH_RATE (boost s) = BALL_GROWTH_RATE s"
  by (simp_all add: boost_def)

lemma grow_fields:
  "WIDTH (grow s) = WIDTH s" "HEIGHT (grow s) = HEIGHT s"
  "BALL_GROWTH_RATE (grow s) = BALL_GROWTH_RATE s"
  "ballVelocity (grow s) = ballVelocity s"
  by (simp_all add: grow_def)

lemma reflect_fields:
  "ballRadius (reflect d x s) = ballRadius s" "WIDTH (reflect d x s) = WIDTH s"
  "HEIGHT (reflect d x s) = HEIGHT s" "BALL_GROWTH_RATE (reflect d x s) = BALL_GROWTH_RATE s"
  by (simp_all add: reflect_def Let_def)

lemma integrate_fields:
  "ballRadius (integrate s) = ballRadius s" "WIDTH (integrate s) = WIDTH s"
  "HEIGHT (integrate s) = HEIGHT s" "BALL_GROWTH_RATE (integrate s) = BALL_GROWTH_RATE s"
  by (simp_all add: integrate_def Let_def)

lemma grow_reflect: "ballRadius (grow (reflect d x s)) = ballRadius (grow s)"
  by (simp add: grow_def reflect_fields MAX_BALL_RADIUS_def CIRCLE_RADIUS_def)

lemma grow_integrate: "ballRadius (grow (integrate s)) = ballRadius (grow s)"
  by (simp add: grow_def integrate_fields MAX_BALL_RADIUS_def CIRCLE_RADIUS_def)

lemma grow_elapsed: "ballRadius (grow (s\<lparr>elapsedTime := t\<rparr>)) = ballRadius (grow s)"
  by (simp add: grow_def MAX_BALL_RADIUS_def CIRCLE_RADIUS_def)

lemma resolve_fields:
  "ballRadius (resolve s) = ballRadius (grow s)" "WIDTH (resolve s) = WIDTH s"
  "HEIGHT (resolve s) = HEIGHT s" "BALL_GROWTH_RATE (resolve s) = BALL_GROWTH_RATE s"
  by (simp_all add: resolve_def Let_def place_fields floor_fields boost_fields grow_fields
      reflect_fields grow_reflect)

lemma ballRadius_update:
  "ballRadius (update now s) =
     (if colliding (integrate (s\<lparr>elapsedTime := (now - startTime s) / 1000\<rparr>))
      then ballRadius (grow s) else ballRadius s)"
  by (simp add: update_def Let_def resolve_fields integrate_fields grow_integrate grow_elapsed)

lemma update_constants:
  "WIDTH (update now s) = WIDTH s" "HEIGHT (update now s) = HEIGHT s"
  "BALL_GROWTH_RATE (update now s) = BALL_GROWTH_RATE s"
  by (simp_all add: update_def Let_def resolve_fields integrate_fields)





lemma reset_in_range:
  "radius_in_range (reset now s) = jle INITIAL_BALL_RADIUS (MAX_BALL_RADIUS s)"
  by (simp add: radius_in_range_def reset_def MAX_BALL_RADIUS_def CIRCLE_RADIUS_def
      INITIAL_BALL_RADIUS_def jle_def)




subsection \<open>The velocity in the collision branch\<close>

lemma velocity_place: "ballVelocity (place d s) = ballVelocity s"
  by (simp add: place_def Let_def)

lemma resolve_velocity: "ballVelocity (resolve s) = ballVelocity (ensureMinimumVelocity (pre_floor s))"
  by (simp add: resolve_def pre_floor_def Let_def velocity_place)

subsection \<open>The tick, field by field\<close>

lemma magnitude_axis: "magnitude (Fin 0, Fin b) = Fin \<bar>b\<bar>"
  by (simp add: magnitude_def)

lemma magnitude_NaN: "magnitude (NaN, b) = NaN" "magnitude (a, NaN) = NaN"
  by (cases a; simp add: magnitude_def)+

lemma entry_fields:
  "ballVelocity (entry now s) =
     (jmul (fst (ballVelocity s)) (VELOCITY_DECAY s),
      jmul (jadd (snd (ballVelocity s)) (GRAVITY s)) (VELOCITY_DECAY s))"
  "ballCenter (entry now s) =
     (jadd (fst (ballCenter s)) (jmul (fst (ballVelocity s)) (VELOCITY_DECAY s)),
      jadd (snd (ballCenter s)) (jmul (jadd (snd (ballVelocity s)) (GRAVITY s)) (VELOCITY_DECAY s)))"
  "ballRadius (entry now s) = ballRadius s"
  "WIDTH (entry now s) = WIDTH s" "HEIGHT (entry now s) = HEIGHT s"
  "VELOCITY_INCREASE_FACTOR (entry now s) = VELOCITY_INCREASE_FACTOR s"
  "BALL_GROWTH_RATE (entry now s) = BALL_GROWTH_RATE s"
  by (simp_all add: entry_def integrate_def Let_def)

lemma offset_entry:
  "offset (entry now s) =
     (jsub (fst (ballCenter (entry now s))) (Fin (real (WIDTH s) / 2)),
      jsub (snd (ballCenter (entry now s))) (Fin (real (HEIGHT s) / 2)))"
  by (simp add: offset_def circleCenter_def entry_fields)

lemma colliding_entry:
  "colliding (entry now s) =
     jge (magnitude (offset (entry now s)))
         (jsub (Fin (real (min (WIDTH s) (HEIGHT s)) / 2 - 125)) (ballRadius s))"
  by (simp add: colliding_def CIRCLE_RADIUS_def entry_fields)

lemma pre_floor_velocity:
  "ballVelocity (pre_floor s) =
     (let d = offset s; distance = magnitude d;
          nx = jdiv (fst d) distance; ny = jdiv (snd d) distance;
          dot = jadd (jmul (fst (ballVelocity s)) nx) (jmul (snd (ballVelocity s)) ny)
      in (jmul (jmul (jsub (fst (ballVelocity s)) (jmul (jmul (Fin 2) dot) nx)) (Fin 0.95))
            (VELOCITY_INCREASE_FACTOR s),
          jmul (jmul (jsub (snd (ballVelocity s)) (jmul (jmul (Fin 2) dot) ny)) (Fin 0.95))
            (VELOCITY_INCREASE_FACTOR s)))"
  by (simp add: pre_floor_def boost_def grow_def reflect_def Let_def)

lemma floor_velocity:
  "ballVelocity (ensureMinimumVelocity s) =
     (if jlt (magnitude (ballVelocity s)) minVelocity
      then (jmul (fst (ballVelocity s)) (jdiv minVelocity (magnitude (ballVelocity s))),
            jmul (snd (ballVelocity s)) (jdiv minVelocity (magnitude (ballVelocity s))))
      else ballVelocity s)"
  by (simp add: ensureMinimumVelocity_def Let_def)

lemma update_velocity:
  "ballVelocity (update now s) =
     (if colliding (entry now s)
      then ballVelocity (ensureMinimumVelocity (pre_floor (entry now s)))
      else ballVelocity (entry now s))"
  by (simp add: update_def entry_def Let_def resolve_velocity)

lemma press_on_ball:
  assumes "ballCenter s = (Fin cx, Fin cy)" and "ballRadius s = Fin r" and "0 \<le> r"
  shows "handleMouseDown (Fin cx) (Fin cy) s = stop (s\<lparr>isDragging := True\<rparr>)"
  using assms by (simp add: handleMouseDown_def jsub_def magnitude_axis jle_def Let_def)




lemma update_center:
  "ballCenter (update now s) =
     (if colliding (entry now s)
      then (let angle = jatan2 (snd (offset (entry now s))) (fst (offset (entry now s)));
                inner = jsub (Fin (real (min (WIDTH s) (HEIGHT s)) / 2 - 125))
                          (ballRadius (update now s))
            in (jadd (Fin (real (WIDTH s) / 2)) (jmul inner (jcos angle)),
                jadd (Fin (real (HEIGHT s) / 2)) (jmul inner (jsin angle))))
      else ballCenter (entry now s))"
  by (simp add: update_def entry_def[symmetric] Let_def resolve_def place_def circleCenter_def
      CIRCLE_RADIUS_def floor_fields boost_fields reflect_fields grow_fields integrate_fields
      entry_fields)

lemma update_tunables:
  "GRAVITY (update now s) = GRAVITY s"
  "VELOCITY_DECAY (update now s) = VELOCITY_DECAY s"
  "VELOCITY_INCREASE_FACTOR (update now s) = VELOCITY_INCREASE_FACTOR s"
  by (simp_all add: update_def Let_def resolve_def place_def ensureMinimumVelocity_def
      boost_def grow_def reflect_def integrate_def)

lemma update_radius_entry:
  "ballRadius (update now s) =
     (if colliding (entry now s)
      then (if jlt (ballRadius s) (MAX_BALL_RADIUS s)
            then jmin (jmul (ballRadius s) (BALL_GROWTH_RATE s)) (MAX_BALL_RADIUS s)
            else ballRadius s)
      else ballRadius s)"
  by (simp add: ballRadius_update entry_def grow_def)

lemma release_fields:
  assumes "isDragging s"
  shows "ballVelocity (handleMouseUp now now' s) = ballVelocity (update now' s)"
    and "ballRadius (handleMouseUp now now' s) = ballRadius (update now' s)"
    and "ballCenter (handleMouseUp now now' s) = ballCenter (update now' s)"
    and "WIDTH (handleMouseUp now now' s) = WIDTH s"
    and "HEIGHT (handleMouseUp now now' s) = HEIGHT s"
    and "GRAVITY (handleMouseUp now now' s) = GRAVITY s"
    and "VELOCITY_DECAY (handleMouseUp now now' s) = VELOCITY_DECAY s"
    and "VELOCITY_INCREASE_FACTOR (handleMouseUp now now' s) = VELOCITY_INCREASE_FACTOR s"
proof -
  have rad: "ballRadius (update now' (s\<lparr>isDragging := False, startTime := t, running := True\<rparr>))
               = ballRadius (update now' s)"
    "ballRadius (update now' (s\<lparr>isDragging := False, running := True\<rparr>))
       = ballRadius (update now' s)" for t
    by (simp_all add: update_radius_entry colliding_entry offset_entry entry_fields
        MAX_BALL_RADIUS_Fin)
  show "ballVelocity (handleMouseUp now now' s) = ballVelocity (update now' s)"
    using assms
    by (simp add: handleMouseUp_def start_def animate_def draw_def Let_def
      update_velocity colliding_entry offset_entry entry_fields
      pre_floor_velocity floor_velocity)
  show "ballRadius (handleMouseUp now now' s) = ballRadius (update now' s)"
    using assms rad
    by (simp add: handleMouseUp_def start_def animate_def draw_def Let_def)
  show "ballCenter (handleMouseUp now now' s) = ballCenter (update now' s)"
    using assms rad
    by (simp add: handleMouseUp_def start_def animate_def draw_def Let_def
      update_center colliding_entry offset_entry entry_fields)
  show "WIDTH (handleMouseUp now now' s) = WIDTH s"
    "HEIGHT (handleMouseUp now now' s) = HEIGHT s"
    "GRAVITY (handleMouseUp now now' s) = GRAVITY s"
    "VELOCITY_DECAY (handleMouseUp now now' s) = VELOCITY_DECAY s"
    "VELOCITY_INCREASE_FACTOR (handleMouseUp now now' s) = VELOCITY_INCREASE_FACTOR s"
    using assms
    by (simp_all add: handleMouseUp_def start_def animate_def draw_def Let_def
      update_constants update_tunables)
qed

subsection \<open>The minimum speed after a collision\<close>

lemma stalled_fields:
  "WIDTH stalled_at_wall = 1080" "HEIGHT stalled_at_wall = 1920"
  "GRAVITY stalled_at_wall = Fin 0"
  "VELOCITY_INCREASE_FACTOR stalled_at_wall = Fin 1.02"
  "VELOCITY_DECAY stalled_at_wall = Fin 0.9995"
  "ballRadius stalled_at_wall = Fin 5"
  "ballCenter stalled_at_wall = (Fin 540, Fin 1370)"
  "ballVelocity stalled_at_wall = (Fin 0, Fin 0)"
  "isDragging stalled_at_wall"
proof -
  let ?s = "setGravity (Fin 0) (new_simulation 1080 1920 True 0)"
  have "handleMouseDown (Fin 540) (Fin (1920 / 2.7)) ?s = stop (?s\<lparr>isDragging := True\<rparr>)"
    by (rule press_on_ball[where r = 5]) (simp_all add: setGravity_def new_simulation_fields)
  then have eq: "stalled_at_wall = handleMouseMove (Fin 540) (Fin 1370) (stop (?s\<lparr>isDragging := True\<rparr>))"
    by (simp add: stalled_at_wall_def)
  show "WIDTH stalled_at_wall = 1080" "HEIGHT stalled_at_wall = 1920"
  "GRAVITY stalled_at_wall = Fin 0"
  "VELOCITY_INCREASE_FACTOR stalled_at_wall = Fin 1.02"
  "VELOCITY_DECAY stalled_at_wall = Fin 0.9995"
  "ballRadius stalled_at_wall = Fin 5"
  "ballCenter stalled_at_wall = (Fin 540, Fin 1370)"
  "ballVelocity stalled_at_wall = (Fin 0, Fin 0)"
  "isDragging stalled_at_wall"
    by (simp_all add: eq handleMouseMove_def stop_def draw_def setGravity_def new_simulation_fields)
qed

text \<open>
  Claim C2 at a state the code breaks it in: the ball is at rest on the wall with gravity
  0. The tick enters the collision branch, the speed after the boost is 0, the scale
  \<open>minVelocity / currentVelocity\<close> is \<open>Infinity\<close> and the velocity becomes
  \<open>(NaN, NaN)\<close>, whose magnitude is not at least 1. Releasing the mouse runs this
  tick: \<open>handleMouseUp\<close> restarts the frame loop.
\<close>

theorem zero_speed_collision:
  "colliding (entry 16 stalled_at_wall)
   \<and> ballVelocity (update 16 stalled_at_wall) = (NaN, NaN)
   \<and> \<not> jge (magnitude (ballVelocity (update 16 stalled_at_wall))) minVelocity
   \<and> ballVelocity (handleMouseUp 0 16 stalled_at_wall) = (NaN, NaN)"
proof -
  have off: "offset (entry 16 stalled_at_wall) = (Fin 0, Fin 410)"
    by (simp add: offset_entry entry_fields stalled_fields jsub_def)
  have col: "colliding (entry 16 stalled_at_wall)"
    by (simp add: colliding_entry off magnitude_axis stalled_fields jsub_def jge_def jle_def)
  have pre: "ballVelocity (pre_floor (entry 16 stalled_at_wall)) = (Fin 0, Fin 0)"
    by (simp add: pre_floor_velocity off magnitude_axis entry_fields stalled_fields jsub_def Let_def)
  have "ballVelocity (update 16 stalled_at_wall) = (NaN, NaN)"
    by (simp add: update_velocity col floor_velocity pre magnitude_axis minVelocity_def)
  then show ?thesis using col
    by (simp add: release_fields(1)[OF stalled_fields(9)] magnitude_NaN jge_def jle_def
        minVelocity_def)
qed

subsection \<open>The tuning setters\<close>

text \<open>
  Claim C10. \<open>setVelocityIncrease\<close> and \<open>setBallGrowthRate\<close> store
  \<open>1 + v\<close>, which is at least 1 for every \<open>v \<ge> 0\<close>; \<open>setGravity\<close> and
  \<open>setVelocityDecay\<close> store \<open>v\<close> itself.
\<close>

theorem tuning_setters:
  "VELOCITY_INCREASE_FACTOR (setVelocityIncrease v s) = jadd (Fin 1) v
   \<and> BALL_GROWTH_RATE (setBallGrowthRate v s) = jadd (Fin 1) v
   \<and> GRAVITY (setGravity v s) = v
   \<and> VELOCITY_DECAY (setVelocityDecay v s) = v
   \<and> (jge v (Fin 0) \<longrightarrow>
        jge (VELOCITY_INCREASE_FACTOR (setVelocityIncrease v s)) (Fin 1)
        \<and> jge (BALL_GROWTH_RATE (setBallGrowthRate v s)) (Fin 1))"
  by (cases v)
     (auto simp: setVelocityIncrease_def setBallGrowthRate_def setGravity_def
        setVelocityDecay_def jge_def jle_def)

text \<open>
  Witness for C10: the setting 0.02 the application starts with.
\<close>

theorem tuning_setters_witness:
  "jge (Fin 0.02) (Fin 0)
   \<and> VELOCITY_INCREASE_FACTOR (setVelocityIncrease (Fin 0.02) (new_simulation 1080 1920 True 0))
       = Fin 1.02
   \<and> jge (VELOCITY_INCREASE_FACTOR
            (setVelocityIncrease (Fin 0.02) (new_simulation 1080 1920 True 0))) (Fin 1)
   \<and> jge (BALL_GROWTH_RATE
            (setBallGrowthRate (Fin 0.02) (new_simulation 1080 1920 True 0))) (Fin 1)"
  using tuning_setters[of "Fin 0.02" "new_simulation 1080 1920 True 0"]
  by (simp add: jge_def jle_def)

subsection \<open>Division by zero in the collision branch\<close>









subsection \<open>Dragging the ball\<close>

text \<open>
  Claim C9, as the code has it. A press within the radius of the ball centre enters the
  dragging state and halts the frame loop: \<open>running\<close> is false, the pending frame
  request is cancelled and a frame that still arrives does nothing. The press leaves the
  velocity as it is. While dragging, every pointer move sets the ball centre to the
  pointer position, sets the velocity to zero and draws once, and changes nothing else:
  no physics tick runs.
\<close>

theorem drag_interaction:
  "(jle (magnitude (jsub x (fst (ballCenter s)), jsub y (snd (ballCenter s)))) (ballRadius s)
      \<longrightarrow> isDragging (handleMouseDown x y s)
        \<and> \<not> running (handleMouseDown x y s)
        \<and> animationId s \<notin> set (frameRequests (handleMouseDown x y s))
        \<and> animate now (handleMouseDown x y s) = handleMouseDown x y s
        \<and> ballVelocity (handleMouseDown x y s) = ballVelocity s)
   \<and> (isDragging s
      \<longrightarrow> handleMouseMove x y s
          = s\<lparr>ballCenter := (x, y), ballVelocity := (Fin 0, Fin 0),
               drawCalls := Suc (drawCalls s)\<rparr>)"
  by (simp add: handleMouseDown_def handleMouseMove_def stop_def draw_def animate_def Let_def)

text \<open>
  Witness for C9: the press at the centre of the ball of a new simulation, followed by a
  move to (540, 1370).
\<close>

theorem drag_interaction_witness:
  "jle (magnitude (jsub (Fin 540) (fst (ballCenter (new_simulation 1080 1920 True 0))),
                   jsub (Fin (1920 / 2.7)) (snd (ballCenter (new_simulation 1080 1920 True 0)))))
       (ballRadius (new_simulation 1080 1920 True 0))
   \<and> isDragging (handleMouseDown (Fin 540) (Fin (1920 / 2.7)) (new_simulation 1080 1920 True 0))
   \<and> \<not> running (handleMouseDown (Fin 540) (Fin (1920 / 2.7)) (new_simulation 1080 1920 True 0))
   \<and> ballCenter dropped_at_wall = (Fin 540, Fin 1370)
   \<and> ballVelocity dropped_at_wall = (Fin 0, Fin 0)"
proof -
  let ?s = "new_simulation 1080 1920 True 0"
  let ?d = "handleMouseDown (Fin 540) (Fin (1920 / 2.7)) ?s"
  have press: "jle (magnitude (jsub (Fin 540) (fst (ballCenter ?s)),
                   jsub (Fin (1920 / 2.7)) (snd (ballCenter ?s)))) (ballRadius ?s)"
    by (simp add: new_simulation_fields jsub_def magnitude_axis jle_def)
  from press drag_interaction[of "Fin 540" ?s "Fin (1920 / 2.7)" 0]
  have d: "isDragging ?d" "\<not> running ?d" by simp_all
  from d(1) drag_interaction[of "Fin 540" ?d "Fin 1370" 0]
  have "handleMouseMove (Fin 540) (Fin 1370) ?d
          = ?d\<lparr>ballCenter := (Fin 540, Fin 1370), ballVelocity := (Fin 0, Fin 0),
               drawCalls := Suc (drawCalls ?d)\<rparr>"
    by blast
  then have "ballCenter dropped_at_wall = (Fin 540, Fin 1370)"
    "ballVelocity dropped_at_wall = (Fin 0, Fin 0)"
    unfolding dropped_at_wall_def by simp_all
  with press d show ?thesis by blast
qed

text \<open>
  Counterexample to C9 as stated: after the press at the ball centre the velocity is
  still (0.8, 0.8), not zero.
\<close>

theorem press_keeps_velocity:
  "jle (magnitude (jsub (Fin 540) (fst (ballCenter (new_simulation 1080 1920 True 0))),
                   jsub (Fin (1920 / 2.7)) (snd (ballCenter (new_simulation 1080 1920 True 0)))))
       (ballRadius (new_simulation 1080 1920 True 0))
   \<and> ballVelocity (handleMouseDown (Fin 540) (Fin (1920 / 2.7)) (new_simulation 1080 1920 True 0))
       = (Fin 0.8, Fin 0.8)
   \<and> ballVelocity (handleMouseDown (Fin 540) (Fin (1920 / 2.7)) (new_simulation 1080 1920 True 0))
       \<noteq> (Fin 0, Fin 0)"
proof -
  let ?s = "new_simulation 1080 1920 True 0"
  have press: "jle (magnitude (jsub (Fin 540) (fst (ballCenter ?s)),
                   jsub (Fin (1920 / 2.7)) (snd (ballCenter ?s)))) (ballRadius ?s)"
    by (simp add: new_simulation_fields jsub_def magnitude_axis jle_def)
  have c: "ballCenter ?s = (Fin 540, Fin (1920 / 2.7))" and r: "ballRadius ?s = Fin 5"
    by (simp_all add: new_simulation_fields)
  have z: "0 \<le> (5::real)" by simp
  have "ballVelocity (handleMouseDown (Fin 540) (Fin (1920 / 2.7)) ?s) = (Fin 0.8, Fin 0.8)"
    unfolding press_on_ball[OF c r z] by (simp add: stop_def new_simulation_fields)
  with press show ?thesis by simp
qed

subsection \<open>The recording lifecycle\<close>

lemma cleanup_fields:
  "mediaRecorder (cleanupResources s) = None"
  "length (recorders (cleanupResources s)) = length (recorders s)"
  "chunks (cleanupResources s) = []"
  "ballRadius (cleanupResources s) = INITIAL_BALL_RADIUS"
  "ballVelocity (cleanupResources s) = (Fin 0.8, Fin 0.8)"
  "completions (cleanupResources s) = completions s"
  "pendingStops (cleanupResources s) = pendingStops s"
  by (simp_all add: cleanupResources_def split: option.split)

lemma cleanup_detaches:
  "mediaRecorder s = Some i \<Longrightarrow> i < length (recorders s) \<Longrightarrow>
     recorders (cleanupResources s) ! i = (recorders s ! i)\<lparr>handlers := False\<rparr>"
  by (simp add: cleanupResources_def)

lemma setup_fields:
  "mediaRecorder (setupRecording a s) = Some (length (recorders s))"
  "recorders (setupRecording a s)
     = recorders (cleanupResources s)
       @ [\<lparr>rstate = Inactive, handlers = True,
           rtracks = 1 + length (case a of None \<Rightarrow> [] | Some tracks \<Rightarrow> tracks)\<rparr>]"
  "ballRadius (setupRecording a s) = INITIAL_BALL_RADIUS"
  "ballVelocity (setupRecording a s) = (Fin 0.8, Fin 0.8)"
  "completions (setupRecording a s) = completions s"
  "pendingStops (setupRecording a s) = pendingStops s"
  by (simp_all add: setupRecording_def Let_def cleanup_fields)

lemma start_fields:
  "mediaRecorder (startRecording cb a s) = Some (length (recorders s))"
  "recorders (startRecording cb a s)
     = recorders (cleanupResources s)
       @ [\<lparr>rstate = Recording, handlers = True,
           rtracks = 1 + length (case a of None \<Rightarrow> [] | Some tracks \<Rightarrow> tracks)\<rparr>]"
  "chunks (startRecording cb a s) = []"
  "onRecordingComplete (startRecording cb a s) = cb"
  "ballRadius (startRecording cb a s) = INITIAL_BALL_RADIUS"
  "ballVelocity (startRecording cb a s) = (Fin 0.8, Fin 0.8)"
  "completions (startRecording cb a s) = completions s"
  "pendingStops (startRecording cb a s) = pendingStops s"
  by (simp_all add: startRecording_def Let_def setup_fields cleanup_fields
      nth_append list_update_append)

text \<open>
  What the two functions do. \<open>stopRecording\<close> while no recording is active changes
  nothing, so no completion callback is scheduled or called. \<open>startRecording\<close>
  first calls \<open>setupRecording\<close>, which drops the current recorder after detaching
  its handlers, without stopping it, and creates a new one; the test
  \<open>mediaRecorder.state === 'inactive'\<close> is then made on the new recorder, so it
  always holds, and the new recorder is started.
\<close>

lemma recording_lifecycle:
  "(\<not> isRecording s \<longrightarrow> stopRecording s = s)
   \<and> isRecording (startRecording cb a s)
   \<and> mediaRecorder (startRecording cb a s) = Some (length (recorders s))
   \<and> length (recorders (startRecording cb a s)) = Suc (length (recorders s))
   \<and> chunks (startRecording cb a s) = []
   \<and> onRecordingComplete (startRecording cb a s) = cb
   \<and> ballRadius (startRecording cb a s) = INITIAL_BALL_RADIUS
   \<and> ballVelocity (startRecording cb a s) = (Fin 0.8, Fin 0.8)
   \<and> completions (startRecording cb a s) = completions s
   \<and> isRecording (startRecording cb' a' (startRecording cb a s))
   \<and> mediaRecorder (startRecording cb' a' (startRecording cb a s))
       = Some (Suc (length (recorders s)))
   \<and> onRecordingComplete (startRecording cb' a' (startRecording cb a s)) = cb'
   \<and> \<not> handlers (recorders (startRecording cb' a' (startRecording cb a s))
                    ! length (recorders s))"
proof -
  let ?s1 = "startRecording cb a s"
  have stop: "\<not> isRecording s \<longrightarrow> stopRecording s = s"
    by (auto simp: isRecording_def stopRecording_def split: option.splits)
  have rec: "isRecording (startRecording c b t)" for c b t
    by (simp add: isRecording_def start_fields cleanup_fields nth_append)
  have len: "length (recorders ?s1) = Suc (length (recorders s))"
    by (simp add: start_fields cleanup_fields)
  have old: "recorders (cleanupResources ?s1) ! length (recorders s)
      = (recorders ?s1 ! length (recorders s))\<lparr>handlers := False\<rparr>"
    by (rule cleanup_detaches) (simp_all add: start_fields cleanup_fields)
  have "\<not> handlers (recorders (startRecording cb' a' ?s1) ! length (recorders s))"
    by (simp add: start_fields(2)[of cb' a' ?s1] nth_append cleanup_fields len old)
  with stop rec len show ?thesis
    by (simp add: start_fields cleanup_fields)
qed

text \<open>
  Claim C8 at an input the code breaks it at: \<open>startRecording\<close> twice in a row on a
  new simulation. The second start is not a no-op: it changes the state, and afterwards
  two recorders are in state \<open>recording\<close>. The first one, never stopped, has lost
  its handlers and the session no longer refers to it, so \<open>stopRecording\<close> stops
  the second only and one recorder keeps recording.
\<close>

theorem second_start_not_noop:
  "isRecording (startRecording (Some 10) None (new_simulation 1080 1920 True 0))
   \<and> startRecording (Some 20) None (startRecording (Some 10) None (new_simulation 1080 1920 True 0))
       \<noteq> startRecording (Some 10) None (new_simulation 1080 1920 True 0)
   \<and> activeRecorders (startRecording (Some 20) None
        (startRecording (Some 10) None (new_simulation 1080 1920 True 0))) = 2
   \<and> recorders (startRecording (Some 20) None
        (startRecording (Some 10) None (new_simulation 1080 1920 True 0)))
       = [\<lparr>rstate = Recording, handlers = False, rtracks = 1\<rparr>,
          \<lparr>rstate = Recording, handlers = True, rtracks = 1\<rparr>]
   \<and> mediaRecorder (startRecording (Some 20) None
        (startRecording (Some 10) None (new_simulation 1080 1920 True 0))) = Some 1
   \<and> activeRecorders (stopRecording (startRecording (Some 20) None
        (startRecording (Some 10) None (new_simulation 1080 1920 True 0)))) = 1"
proof -
  let ?s = "new_simulation 1080 1920 True 0"
  let ?s1 = "startRecording (Some 10) None ?s"
  let ?s2 = "startRecording (Some 20) None ?s1"
  have s0: "recorders ?s = []" "mediaRecorder ?s = None"
    by (simp_all add: new_simulation_def reset_def)
  have r1: "recorders ?s1 = [\<lparr>rstate = Recording, handlers = True, rtracks = 1\<rparr>]"
    by (simp add: start_fields cleanupResources_def s0)
  have m1: "mediaRecorder ?s1 = Some 0"
    by (simp add: start_fields s0)
  have r2: "recorders ?s2 = [\<lparr>rstate = Recording, handlers = False, rtracks = 1\<rparr>,
                             \<lparr>rstate = Recording, handlers = True, rtracks = 1\<rparr>]"
    by (simp add: start_fields(2)[of "Some 20" None ?s1] cleanupResources_def r1 m1)
  have m2: "mediaRecorder ?s2 = Some 1"
    by (simp add: start_fields(1)[of "Some 20" None ?s1] r1)
  have rec: "isRecording ?s1"
    by (simp add: isRecording_def m1 r1)
  have ne: "?s2 \<noteq> ?s1"
  proof
    assume "?s2 = ?s1"
    then have "recorders ?s2 = recorders ?s1" by simp
    then show False by (simp add: r1 r2)
  qed
  have st: "activeRecorders (stopRecording ?s2) = 1"
    by (simp add: stopRecording_def activeRecorders_def m2 r2)
  from rec ne r2 m2 st show ?thesis by (simp add: activeRecorders_def)
qed

subsection \<open>The track limit\<close>

text \<open>
  Claim C6. \<open>processAudioFile\<close> on a file of a valid format, when the manager
  holds \<open>MAX_TRACKS = 10\<close> tracks or more, throws the error that names the limit
  and leaves the manager as it was: the tracks, the current track index and the active
  segments are those of before.
\<close>

theorem capacity_error_atomic:
  assumes "isValidAudioFormat ftype" and "MAX_TRACKS \<le> length (audioTracks m)"
  shows "processAudioFile ftype decoded resumes m = Some (Some (MaximumTracksReached 10), m)"
  using assms by (simp add: processAudioFile_def MAX_TRACKS_def)

text \<open>
  Witness for C6: an eleventh file for a manager with ten tracks.
\<close>

theorem capacity_error_atomic_witness:
  "isValidAudioFormat ''audio/wav'' \<and> MAX_TRACKS \<le> length (audioTracks full_manager)
   \<and> processAudioFile ''audio/wav'' (Inr (silence 44100)) True full_manager
       = Some (Some (MaximumTracksReached 10), full_manager)
   \<and> length (audioTracks full_manager) = 10"
proof -
  have v: "isValidAudioFormat ''audio/wav''" by (simp add: isValidAudioFormat_def)
  have c: "MAX_TRACKS \<le> length (audioTracks full_manager)"
    by (simp add: MAX_TRACKS_def full_manager_def)
  show ?thesis using v c capacity_error_atomic[OF v c, of "Inr (silence 44100)" True]
    by (simp add: full_manager_def)
qed

subsection \<open>The rate limit of the playback\<close>





lemma well_formed_silence: "0 < n \<Longrightarrow> n < 2 ^ 32 \<Longrightarrow> well_formed (silence n)"
  by (simp add: well_formed_def silence_def numberOfChannels_def)

lemma silence_fields:
  "blength (silence n) = n" "sampleRate (silence n) = 44100"
  "channelData (silence n) = [replicate n 0]" "numberOfChannels (silence n) = 1"
  by (simp_all add: silence_def numberOfChannels_def)





subsection \<open>Rounding of whole numbers and of the example durations\<close>

lemma round_to_even_int: "round_to_even (of_int n) = n"
  by (simp add: round_to_even_def)

lemma round_to_even_nat: "round_to_even (real n) = int n"
  using round_to_even_int[of "int n"] by simp

lemma exp_down_le: "exp_down n x e \<le> e"
proof (induction n arbitrary: x e)
  case 0
  then show ?case by simp
next
  case (Suc n)
  have "exp_down n (2 * x) (e - 1) \<le> e - 1" by (rule Suc.IH)
  then show ?case by simp
qed

text \<open>
  A whole number below \<open>2^53\<close> is a double: rounding leaves it as it is.
\<close>

lemma fl_nat:
  assumes "n < 2 ^ 53"
  shows "fl (real n) = Fin (real n)"
proof -
  have small: "\<not> 2 ^ 53 \<le> \<bar>real n\<bar>"
  proof -
    have "real n < real (2 ^ 53)" using assms by (simp only: of_nat_less_iff)
    then show ?thesis by simp
  qed
  have "ulp_exponent (real n) \<le> 0"
    using small exp_down_le[of 1074 "\<bar>real n\<bar>" 0] by (simp add: ulp_exponent_def)
  then obtain k where k: "ulp_exponent (real n) = - int k"
    by (metis nat_0_le neg_le_0_iff_le minus_minus)
  have p: "(2::real) powi (- int k) = 1 / 2 ^ k"
    by (simp add: power_int_minus field_simps)
  have q: "real n / (1 / 2 ^ k) = real (n * 2 ^ k)" by simp
  have y: "of_int (round_to_even (real n / 2 powi ulp_exponent (real n)))
             * 2 powi ulp_exponent (real n) = real n"
    unfolding k p q round_to_even_nat by simp
  have big: "\<not> 2 ^ 1024 \<le> real n"
  proof -
    have "real n < 2 ^ 53" using small by simp
    also have "(2::real) ^ 53 \<le> 2 ^ 1024" by (rule power_increasing) simp_all
    finally show ?thesis by simp
  qed
  have neg: "\<not> real n \<le> - (2 ^ 1024)"
  proof -
    have "- ((2::real) ^ 1024) < 0" by simp
    also have "0 \<le> real n" by simp
    finally show ?thesis by simp
  qed
  show ?thesis
    unfolding fl_def Let_def y using big neg by (simp only: if_False)
qed

lemma fl_zero: "fl 0 = Fin 0"
  using fl_nat[of 0] by simp

lemma exp_numeral:
  "exp_down (numeral k) x e
     = (if x < 2 ^ 52 then exp_down (pred_numeral k) (2 * x) (e - 1) else e)"
  "exp_up (numeral k) x e
     = (if 2 ^ 53 \<le> x then exp_up (pred_numeral k) (x / 2) (e + 1) else e)"
  by (simp_all add: numeral_eq_Suc)

lemmas fl_eval = fl_def ulp_exponent_def round_to_even_def exp_numeral Let_def power_int_def
  power_divide

text \<open>
  The doubles of the segment durations of the examples and of the sample rate 44100, and
  the steps \<open>segmentDuration * sampleRate\<close> the program computes from them. For 0.3
  and 0.5 the rounded product is the whole number of samples; for 0.7 it is
  \<open>30869.999999999996\<close>, the double just below 30870.
\<close>

lemma fl_examples:
  "fl 0.3 = Fin (5404319552844595 / 2 ^ 54)"
  "fl 0.5 = Fin 0.5"
  "fl 0.7 = Fin (3152519739159347 / 2 ^ 52)"
  "fl 44100 = Fin 44100"
  by (simp_all add: fl_eval)

lemma samples_examples:
  "rnd (jmul (fl 0.3) (fl 44100)) = Fin (real 13230)"
  "rnd (jmul (fl 0.5) (fl 44100)) = Fin (real 22050)"
  "rnd (jmul (fl 0.7) (fl 44100)) = Fin (8485480987361279 / 2 ^ 38)"
  unfolding fl_examples by (simp_all add: fl_eval)

subsection \<open>Splitting at whole samples\<close>

lemma fold_channels_prefix:
  "k \<le> length cd \<Longrightarrow>
     fold (\<lambda>c cd. cd[c := f c (cd ! c)]) [0..<k] cd = map (\<lambda>c. f c (cd ! c)) [0..<k] @ drop k cd"
proof (induction k)
  case 0
  then show ?case by simp
next
  case (Suc k)
  then have k: "k < length cd" by simp
  have "fold (\<lambda>c cd. cd[c := f c (cd ! c)]) [0..<Suc k] cd
      = (map (\<lambda>c. f c (cd ! c)) [0..<k] @ drop k cd)
          [k := f k ((map (\<lambda>c. f c (cd ! c)) [0..<k] @ drop k cd) ! k)]"
    using Suc by simp
  also have "\<dots> = map (\<lambda>c. f c (cd ! c)) [0..<k] @ (drop k cd)[0 := f k (cd ! k)]"
    using k by (simp add: list_update_append nth_append)
  also have "(drop k cd)[0 := f k (cd ! k)] = f k (cd ! k) # drop (Suc k) cd"
    using k by (simp add: Cons_nth_drop_Suc[symmetric])
  finally show ?case by simp
qed

lemma fold_channels:
  "fold (\<lambda>c cd. cd[c := f c (cd ! c)]) [0..<length cd] cd = map (\<lambda>c. f c (cd ! c)) [0..<length cd]"
  using fold_channels_prefix[of "length cd" cd f] by simp

lemma copy_slice_fold:
  assumes "\<forall>c\<in>set chs. c < numberOfChannels ab \<and> c < length (channelData sb)
             \<and> length (slice (channelData ab ! c) i (rnd (jadd i n))) \<le> q"
    and "\<forall>t\<in>set (channelData sb). length t = q"
  shows "copy_slice ab i n chs sb =
     Inr (sb\<lparr>channelData :=
            fold (\<lambda>c cd. cd[c := write_at 0 (slice (channelData ab ! c) i (rnd (jadd i n))) (cd ! c)])
              chs (channelData sb)\<rparr>)"
  using assms
proof (induction chs arbitrary: sb)
  case Nil
  then show ?case by simp
next
  case (Cons c chs)
  let ?src = "slice (channelData ab ! c) i (rnd (jadd i n))"
  let ?sb = "sb\<lparr>channelData := (channelData sb)[c := write_at 0 ?src (channelData sb ! c)]\<rparr>"
  from Cons.prems have c: "c < numberOfChannels ab" "c < length (channelData sb)"
    "length ?src \<le> q" by simp_all
  from Cons.prems(2) c(2) have t: "length (channelData sb ! c) = q" by simp
  have w: "typed_set (channelData sb ! c) ?src 0 = Inr (write_at 0 ?src (channelData sb ! c))"
    using c(3) t by (simp add: typed_set_def write_at_def)
  have lw: "length (write_at 0 ?src (channelData sb ! c)) = q"
    using c(3) t by (simp add: write_at_def)
  have inv: "\<forall>t\<in>set (channelData ?sb). length t = q"
    using Cons.prems(2) lw by (auto dest!: set_update_subset_insert[THEN subsetD])
  have pre: "\<forall>c\<in>set chs. c < numberOfChannels ab \<and> c < length (channelData ?sb)
             \<and> length (slice (channelData ab ! c) i (rnd (jadd i n))) \<le> q"
    using Cons.prems(1) by simp
  show ?case
    using c w Cons.IH[OF pre inv]
    by (simp add: getChannelData_def numberOfChannels_def)
qed

lemma trunc_real: "trunc (real p) = int p"
  by (simp add: trunc_def)

lemma to_unsigned_long_real: "q < 2 ^ 32 \<Longrightarrow> to_unsigned_long (Fin (real q)) = q"
proof -
  assume "q < 2 ^ 32"
  then have "int q < 2 ^ 32" by (metis of_nat_less_iff of_nat_numeral of_nat_power)
  then show ?thesis by (simp add: trunc_real)
qed

lemma fl_sample: "n < 2 ^ 33 \<Longrightarrow> fl (real n) = Fin (real n)"
proof (rule fl_nat)
  assume "n < 2 ^ 33"
  also have "(2::nat) ^ 33 \<le> 2 ^ 53" by (rule power_increasing) simp_all
  finally show "n < 2 ^ 53" .
qed

lemma slice_nat:
  "p + q \<le> length xs \<Longrightarrow> slice xs (Fin (real p)) (Fin (real (p + q))) = take q (drop p xs)"
proof -
  assume a: "p + q \<le> length xs"
  show ?thesis using a
    unfolding slice_def relative_index.simps
    by (simp only: trunc_real Let_def) (simp add: nat_add_distrib)
qed

lemma map_nth_fun: "map (\<lambda>c. g (xs ! c)) [0..<length xs] = map g xs"
  by (rule nth_equalityI) simp_all

lemma make_segment_nat:
  assumes "well_formed b" and "0 < k" and "p < blength b"
  shows "make_segment d b (Fin (real k)) (Fin (real p)) = Inr (segment_at d b k p)"
proof -
  let ?n = "blength b" and ?p = "p" and ?nch = "numberOfChannels b"
  define q where "q = min k (?n - ?p)"
  have n32: "?n < 2 ^ 32" using assms(1) by (simp add: well_formed_def)
  have q: "0 < q" "q < 2 ^ 32" "?p + q \<le> ?n"
    using assms by (auto simp: q_def well_formed_def)
  have rest: "rnd (jsub (Fin (real ?n)) (Fin (real ?p))) = Fin (real (?n - ?p))"
  proof -
    have d: "real ?n - real ?p = real (?n - ?p)" using assms(3) by simp
    have "rnd (jsub (Fin (real ?n)) (Fin (real ?p))) = fl (real ?n - real ?p)"
      by (simp add: jsub_def)
    also have "\<dots> = fl (real (?n - ?p))" by (simp only: d)
    also have "\<dots> = Fin (real (?n - ?p))"
      using n32 by (intro fl_sample) simp
    finally show ?thesis .
  qed
  have len: "jmin (Fin (real k)) (rnd (jsub (Fin (real ?n)) (Fin (real ?p)))) = Fin (real q)"
    unfolding rest by (simp add: jmin_def q_def min_def)
  have fin: "rnd (jadd (Fin (real ?p)) (Fin (real q))) = Fin (real (?p + q))"
  proof -
    have "rnd (jadd (Fin (real ?p)) (Fin (real q))) = fl (real (?p + q))" by simp
    also have "\<dots> = Fin (real (?p + q))"
      using n32 q(3) by (intro fl_sample) simp
    finally show ?thesis .
  qed
  have nch: "0 < ?nch" and chans: "\<forall>c\<in>set (channelData b). length c = ?n"
    using assms(1) by (simp_all add: well_formed_def)
  let ?sb = "\<lparr>sampleRate = sampleRate b, blength = q,
              channelData = replicate ?nch (replicate q 0)\<rparr>"
  have cb: "createBuffer ?nch (to_unsigned_long (Fin (real q))) (sampleRate b) = Inr ?sb"
    unfolding to_unsigned_long_real[OF q(2)] using q nch by (simp add: createBuffer_def)
  have sl: "slice (channelData b ! c) (Fin (real ?p)) (rnd (jadd (Fin (real ?p)) (Fin (real q))))
              = take q (drop ?p (channelData b ! c))"
    if "c < ?nch" for c
    unfolding fin using that chans q(3) by (intro slice_nat) (simp add: numberOfChannels_def)
  have pre: "\<forall>c\<in>set [0..<?nch]. c < numberOfChannels b \<and> c < length (channelData ?sb)
             \<and> length (slice (channelData b ! c) (Fin (real ?p))
                         (rnd (jadd (Fin (real ?p)) (Fin (real q))))) \<le> q"
    by (simp add: sl del: rnd.simps jadd.simps)
  have inv: "\<forall>t\<in>set (channelData ?sb). length t = q" by simp
  have wr: "write_at 0 (take q (drop ?p (channelData b ! c))) (replicate q 0)
            = take k (drop ?p (channelData b ! c))" if "c < ?nch" for c
  proof -
    have l: "length (channelData b ! c) = ?n"
      using that chans by (simp add: numberOfChannels_def)
    then have "take q (drop ?p (channelData b ! c)) = take k (drop ?p (channelData b ! c))"
      by (simp add: q_def min_def)
    moreover have "length (take q (drop ?p (channelData b ! c))) = q"
      using l q(3) by simp
    ultimately show ?thesis by (simp add: write_at_def)
  qed
  have "fold (\<lambda>c cd. cd[c := write_at 0 (slice (channelData b ! c) (Fin (real ?p))
                                     (rnd (jadd (Fin (real ?p)) (Fin (real q))))) (cd ! c)])
          [0..<?nch] (channelData ?sb)
        = map (\<lambda>c. write_at 0 (slice (channelData b ! c) (Fin (real ?p))
                                  (rnd (jadd (Fin (real ?p)) (Fin (real q)))))
                     (channelData ?sb ! c)) [0..<?nch]"
    using fold_channels[of "\<lambda>c. write_at 0 (slice (channelData b ! c) (Fin (real ?p))
                                  (rnd (jadd (Fin (real ?p)) (Fin (real q)))))" "channelData ?sb"]
    by (simp del: rnd.simps jadd.simps)
  also have "\<dots> = map (\<lambda>c. take k (drop ?p (channelData b ! c))) [0..<?nch]"
    by (rule map_cong) (simp_all add: sl wr del: rnd.simps jadd.simps)
  also have "\<dots> = map (\<lambda>c. take k (drop ?p c)) (channelData b)"
    unfolding numberOfChannels_def by (rule map_nth_fun)
  finally have fold: "fold (\<lambda>c cd. cd[c := write_at 0 (slice (channelData b ! c) (Fin (real ?p))
                                     (rnd (jadd (Fin (real ?p)) (Fin (real q))))) (cd ! c)])
          [0..<?nch] (channelData ?sb) = map (\<lambda>c. take k (drop ?p c)) (channelData b)" .
  have cs: "copy_slice b (Fin (real ?p)) (Fin (real q)) [0..<?nch] ?sb
      = Inr (?sb\<lparr>channelData := map (\<lambda>c. take k (drop ?p c)) (channelData b)\<rparr>)"
    unfolding copy_slice_fold[OF pre inv] fold ..
  show ?thesis
    unfolding make_segment_def Let_def len cb
    by (simp add: cs del: rnd.simps jdiv.simps) (simp add: segment_at_def q_def)
qed

lemma segment_count:
  assumes "0 < (k::nat)"
  shows "(j < (n + k - 1) div k) = (j * k < n)"
proof -
  have "((n + k - 1) div k < Suc j) = (n + k - 1 < Suc j * k)"
    using assms by (simp add: div_less_iff_less_mult)
  also have "\<dots> = (n \<le> j * k)" using assms by auto
  finally show ?thesis by (simp add: not_less[symmetric] less_Suc_eq_le del: mult_Suc)
qed

lemma split_loop_nat:
  assumes "well_formed b" and "0 < k" and "k < 2 ^ 32"
  shows "split_loop d b (Fin (real k)) (Fin (real (j * k))) acc =
     Some (Inr (acc @ map (\<lambda>j. segment_at d b k (j * k)) [j..<(blength b + k - 1) div k]))"
proof (induction "(blength b + k - 1) div k - j" arbitrary: j acc)
  case 0
  then have "\<not> j < (blength b + k - 1) div k" by simp
  then have "\<not> j * k < blength b" using segment_count[OF assms(2)] by simp
  then have "\<not> jlt (Fin (real (j * k))) (Fin (real (blength b)))" by (simp del: of_nat_mult)
  with 0 show ?case by (subst split_loop.simps) simp
next
  case (Suc m)
  then have j: "j < (blength b + k - 1) div k" by simp
  then have lt: "j * k < blength b" using segment_count[OF assms(2)] by simp
  then have cond: "jlt (Fin (real (j * k))) (Fin (real (blength b)))" by (simp del: of_nat_mult)
  have "blength b < 2 ^ 32" using assms(1) by (simp add: well_formed_def)
  with lt assms(3) have "j * k + k < 2 ^ 32 + 2 ^ 32" by simp
  then have small: "Suc j * k < 2 ^ 33" by (simp add: add.commute)
  have "rnd (jadd (Fin (real (j * k))) (Fin (real k))) = fl (real (Suc j * k))"
    by (simp add: algebra_simps)
  also have "\<dots> = Fin (real (Suc j * k))" using small by (rule fl_sample)
  finally have next_pos: "rnd (jadd (Fin (real (j * k))) (Fin (real k))) = Fin (real (Suc j * k))" .
  from Suc(2) have m: "m = (blength b + k - 1) div k - Suc j" by simp
  have up: "[j..<(blength b + k - 1) div k] = j # [Suc j..<(blength b + k - 1) div k]"
    using j by (rule upt_conv_Cons)
  have "split_loop d b (Fin (real k)) (Fin (real (j * k))) acc
      = split_loop d b (Fin (real k)) (Fin (real (Suc j * k))) (acc @ [segment_at d b k (j * k)])"
    by (subst split_loop.simps)
       (simp only: cond if_True make_segment_nat[OF assms(1,2) lt] sum.case next_pos)
  also have "\<dots> = Some (Inr ((acc @ [segment_at d b k (j * k)])
      @ map (\<lambda>j. segment_at d b k (j * k)) [Suc j..<(blength b + k - 1) div k]))"
    by (rule Suc(1)[OF m])
  finally show ?case unfolding up by simp
qed

text \<open>
  When the step the program computes is a whole number \<open>k\<close> of samples, the loop
  computes the split of the specification.
\<close>

lemma split_whole_samples:
  assumes "well_formed b" and "0 < k" and "k < 2 ^ 32"
    and "rnd (jmul (fl (segmentDuration m)) (fl (sampleRate b))) = Fin (real k)"
  shows "splitAudioIntoSegments m b = Some (Inr (consecutive_segments (segmentDuration m) b k))"
  using split_loop_nat[OF assms(1,2,3), of "segmentDuration m" 0 "[]"]
  by (simp add: splitAudioIntoSegments_def assms(4) consecutive_segments_def)

lemma buffers_of_segments:
  "map buffer (consecutive_segments d b k) = consecutive_buffers b k"
  "map segStartTime (consecutive_segments d b k)
     = map (\<lambda>j. rnd (jdiv (Fin (real (j * k))) (fl (sampleRate b))))
         [0..<(blength b + k - 1) div k]"
  "map duration (consecutive_segments d b k) = replicate ((blength b + k - 1) div k) d"
  by (simp_all add: consecutive_segments_def consecutive_buffers_def segment_at_def comp_def
      map_replicate_const del: rnd.simps jdiv.simps)

lemma concat_take_drop:
  "concat (map (\<lambda>j. take k (drop (j * k) xs)) [0..<N]) = take (N * k) xs"
proof (induction N)
  case 0
  then show ?case by simp
next
  case (Suc N)
  have "take (N * k + k) xs = take (N * k) xs @ take k (drop (N * k) xs)"
    by (rule take_add)
  then have "take (Suc N * k) xs = take (N * k) xs @ take k (drop (N * k) xs)"
    by (simp only: mult_Suc add.commute)
  with Suc show ?case by simp
qed

lemma concat_chunks:
  assumes "0 < k"
  shows "concat (map (\<lambda>j. take k (drop (j * k) xs)) [0..<(length xs + k - 1) div k]) = xs"
proof -
  have "\<not> (length xs + k - 1) div k * k < length xs"
    using segment_count[OF assms, of "(length xs + k - 1) div k" "length xs"] by simp
  then show ?thesis by (simp add: concat_take_drop)
qed

lemma consecutive_buffers_props:
  assumes "well_formed b" and "0 < k"
  shows "length (consecutive_buffers b k) = (blength b + k - 1) div k"
    and "\<forall>j. Suc j < length (consecutive_buffers b k) \<longrightarrow>
           blength (consecutive_buffers b k ! j) = k"
    and "blength (last (consecutive_buffers b k))
           = blength b - (length (consecutive_buffers b k) - 1) * k"
    and "\<not> k dvd blength b \<longrightarrow> blength (last (consecutive_buffers b k)) < k"
    and "\<forall>c<numberOfChannels b.
           concat (map (\<lambda>s. channelData s ! c) (consecutive_buffers b k)) = channelData b ! c"
    and "sum_list (map blength (consecutive_buffers b k)) = blength b"
    and "consecutive_buffers b k \<noteq> []"
proof -
  let ?N = "(blength b + k - 1) div k" and ?n = "blength b"
  have n: "0 < ?n" using assms(1) by (simp add: well_formed_def)
  have N: "0 < ?N" using segment_count[OF assms(2), of 0 ?n] n by simp
  show len: "length (consecutive_buffers b k) = ?N"
    by (simp add: consecutive_buffers_def)
  show ne: "consecutive_buffers b k \<noteq> []" using N len by auto
  have nth: "blength (consecutive_buffers b k ! j) = min k (?n - j * k)" if "j < ?N" for j
    using that by (simp add: consecutive_buffers_def)
  show "\<forall>j. Suc j < length (consecutive_buffers b k) \<longrightarrow> blength (consecutive_buffers b k ! j) = k"
  proof (intro allI impI)
    fix j assume "Suc j < length (consecutive_buffers b k)"
    then have j: "Suc j < ?N" by (simp add: len)
    then have "Suc j * k < ?n" using segment_count[OF assms(2)] by blast
    then have "k \<le> ?n - j * k" by simp
    with nth[of j] j show "blength (consecutive_buffers b k ! j) = k" by simp
  qed
  have cover: "?n \<le> ?N * k"
    using segment_count[OF assms(2), of ?N ?n] by simp
  have lastN: "(?N - 1) * k < ?n"
    using segment_count[OF assms(2), of "?N - 1" ?n] N by simp
  have rem: "?n - (?N - 1) * k \<le> k"
  proof -
    have "?N * k = (?N - 1) * k + k" using N by (cases ?N) simp_all
    with cover show ?thesis by simp
  qed
  have l: "blength (last (consecutive_buffers b k)) = min k (?n - (?N - 1) * k)"
    using nth[of "?N - 1"] N ne by (simp add: last_conv_nth len)
  with rem show last: "blength (last (consecutive_buffers b k))
           = blength b - (length (consecutive_buffers b k) - 1) * k"
    by (simp add: len)
  show "\<not> k dvd blength b \<longrightarrow> blength (last (consecutive_buffers b k)) < k"
  proof
    assume nd: "\<not> k dvd ?n"
    have "?n - (?N - 1) * k \<noteq> k"
    proof
      assume "?n - (?N - 1) * k = k"
      then have "?n = (?N - 1) * k + k" using lastN by simp
      then have "?n = ?N * k" using N by (cases ?N) simp_all
      then have "k dvd ?n" by (metis dvd_triv_right)
      with nd show False by simp
    qed
    with rem last show "blength (last (consecutive_buffers b k)) < k" by (simp add: len)
  qed
  show "\<forall>c<numberOfChannels b.
           concat (map (\<lambda>s. channelData s ! c) (consecutive_buffers b k)) = channelData b ! c"
  proof (intro allI impI)
    fix c assume c: "c < numberOfChannels b"
    then have lc: "length (channelData b ! c) = ?n"
      using assms(1) by (simp add: well_formed_def numberOfChannels_def)
    have "concat (map (\<lambda>s. channelData s ! c) (consecutive_buffers b k))
        = concat (map (\<lambda>j. take k (drop (j * k) (channelData b ! c))) [0..<?N])"
      using c by (simp add: consecutive_buffers_def comp_def numberOfChannels_def)
    also have "\<dots> = channelData b ! c"
      using concat_chunks[OF assms(2), of "channelData b ! c"] by (simp add: lc)
    finally show "concat (map (\<lambda>s. channelData s ! c) (consecutive_buffers b k)) = channelData b ! c" .
  qed
  show "sum_list (map blength (consecutive_buffers b k)) = blength b"
  proof -
    obtain c0 where c0: "c0 \<in> set (channelData b)" and l0: "length c0 = ?n"
      using assms(1) by (cases "channelData b") (auto simp: well_formed_def numberOfChannels_def)
    have "map blength (consecutive_buffers b k) = map (\<lambda>j. length (take k (drop (j * k) c0))) [0..<?N]"
      by (simp add: consecutive_buffers_def comp_def l0 min.commute)
    then have "sum_list (map blength (consecutive_buffers b k))
        = length (concat (map (\<lambda>j. take k (drop (j * k) c0)) [0..<?N]))"
      by (simp add: length_concat comp_def)
    also have "\<dots> = ?n"
      using concat_chunks[OF assms(2), of c0] by (simp add: l0)
    finally show ?thesis .
  qed
qed

subsection \<open>The example track\<close>

lemma four_segments: "(44100 + 13230 - 1) div 13230 = (4::nat)"
  by simp

lemma upt_4: "[0..<4] = [0, Suc 0, 2, 3]"
  by code_simp

lemma example_buffers:
  "consecutive_buffers (silence 44100) 13230
     = [silence 13230, silence 13230, silence 13230, silence 4410]"
  by (simp add: consecutive_buffers_def silence_fields four_segments upt_4 silence_def)

text \<open>
  The example track is what an upload produces.
\<close>

lemma upload_one_track:
  "processAudioFile ''audio/wav'' (Inr (silence 44100)) True (new_audio_manager False)
     = Some (None, one_track)"
proof -
  let ?m = "(new_audio_manager False)\<lparr>isProcessing := True\<rparr>"
  have d: "segmentDuration ?m = 0.3" by (simp add: new_audio_manager_def)
  have "splitAudioIntoSegments ?m (silence 44100)
      = Some (Inr (consecutive_segments (segmentDuration ?m) (silence 44100) 13230))"
  proof (rule split_whole_samples)
    show "well_formed (silence 44100)" by (simp add: well_formed_silence)
    show "(0::nat) < 13230" "(13230::nat) < 2 ^ 32" by simp_all
    show "rnd (jmul (fl (segmentDuration ?m)) (fl (sampleRate (silence 44100))))
            = Fin (real 13230)"
      unfolding d silence_fields by (rule samples_examples(1))
  qed
  then show ?thesis
    by (simp add: processAudioFile_def isValidAudioFormat_def MAX_TRACKS_def Let_def
        new_audio_manager_def one_track_def)
qed

subsection \<open>The split of a buffer\<close>

text \<open>
  When the step the program computes, the rounded product
  \<open>segmentDuration * sampleRate\<close>, is a whole number \<open>k \<ge> 1\<close> of samples,
  \<open>splitAudioIntoSegments\<close> returns the consecutive segments of the buffer:
  segment \<open>j\<close> holds the samples from \<open>j * k\<close> on, \<open>k\<close> of them except
  for the last segment, which holds the remainder and is shorter when \<open>k\<close> does not
  divide the length; the segments concatenated give the samples of the buffer. The field
  \<open>duration\<close> of every segment, the last one included, is the segment duration of
  the manager, whatever its buffer holds.
\<close>

lemma split_into_segments:
  assumes "well_formed b" and "0 < k" and "k < 2 ^ 32"
    and "rnd (jmul (fl (segmentDuration m)) (fl (sampleRate b))) = Fin (real k)"
  shows "\<exists>segs. splitAudioIntoSegments m b = Some (Inr segs)
           \<and> map buffer segs = consecutive_buffers b k
           \<and> map segStartTime segs
               = map (\<lambda>j. rnd (jdiv (Fin (real (j * k))) (fl (sampleRate b)))) [0..<length segs]
           \<and> map duration segs = replicate (length segs) (segmentDuration m)
           \<and> length segs = (blength b + k - 1) div k
           \<and> (\<forall>j. Suc j < length segs \<longrightarrow> blength (buffer (segs ! j)) = k)
           \<and> blength (buffer (last segs)) = blength b - (length segs - 1) * k
           \<and> (\<not> k dvd blength b \<longrightarrow> blength (buffer (last segs)) < k)
           \<and> (\<forall>c<numberOfChannels b.
                 concat (map (\<lambda>s. channelData (buffer s) ! c) segs) = channelData b ! c)"
proof -
  let ?segs = "consecutive_segments (segmentDuration m) b k"
  note p = consecutive_buffers_props[OF assms(1,2)]
  have b: "map buffer ?segs = consecutive_buffers b k"
    by (rule buffers_of_segments)
  have len: "length ?segs = (blength b + k - 1) div k"
    by (simp add: consecutive_segments_def)
  have ne: "?segs \<noteq> []" using p(7) b by auto
  have nth: "buffer (?segs ! j) = consecutive_buffers b k ! j" if "j < length ?segs" for j
    using that b by (metis nth_map)
  have lst: "buffer (last ?segs) = last (consecutive_buffers b k)"
    using ne b by (metis last_map)
  have cc: "map (\<lambda>s. channelData (buffer s) ! c) ?segs
          = map (\<lambda>s. channelData s ! c) (consecutive_buffers b k)" for c
    unfolding b[symmetric] by (simp add: comp_def)
  have "splitAudioIntoSegments m b = Some (Inr ?segs)"
    by (rule split_whole_samples[OF assms])
  moreover have "map segStartTime ?segs
      = map (\<lambda>j. rnd (jdiv (Fin (real (j * k))) (fl (sampleRate b)))) [0..<length ?segs]"
    unfolding len by (rule buffers_of_segments(2))
  moreover have "map duration ?segs = replicate (length ?segs) (segmentDuration m)"
    unfolding len by (rule buffers_of_segments(3))
  moreover have "\<forall>j. Suc j < length ?segs \<longrightarrow> blength (buffer (?segs ! j)) = k"
    using p(2) nth by (simp add: len p(1))
  moreover have "blength (buffer (last ?segs)) = blength b - (length ?segs - 1) * k"
    using p(3) by (simp add: lst len p(1))
  moreover have "\<not> k dvd blength b \<longrightarrow> blength (buffer (last ?segs)) < k"
    using p(4) by (simp add: lst)
  moreover have "\<forall>c<numberOfChannels b.
      concat (map (\<lambda>s. channelData (buffer s) ! c) ?segs) = channelData b ! c"
    using p(5) by (simp add: cc)
  ultimately show ?thesis using b len
    by (intro exI[of _ ?segs] conjI)
qed

text \<open>
  The example of the specification: a 1.0 s buffer at 44100 Hz and the segment duration
  0.3 give 4 segments whose buffers hold 13230, 13230, 13230 and 4410 samples, that is
  0.3, 0.3, 0.3 and 0.1 seconds; the field \<open>duration\<close> is 0.3 in all four.
\<close>

lemma split_example:
  "\<exists>segs. splitAudioIntoSegments (new_audio_manager False) (silence 44100) = Some (Inr segs)
      \<and> map buffer segs = [silence 13230, silence 13230, silence 13230, silence 4410]
      \<and> map (bufferDuration \<circ> buffer) segs = [0.3, 0.3, 0.3, 0.1]
      \<and> map duration segs = [0.3, 0.3, 0.3, 0.3]
      \<and> map segStartTime segs = [Fin 0, fl 0.3, fl 0.6, fl 0.9]"
proof -
  have w: "well_formed (silence 44100)" by (simp add: well_formed_silence)
  have k: "(0::nat) < 13230" "(13230::nat) < 2 ^ 32" by simp_all
  have d: "rnd (jmul (fl (segmentDuration (new_audio_manager False)))
                     (fl (sampleRate (silence 44100)))) = Fin (real 13230)"
    using samples_examples(1) by (simp add: new_audio_manager_def silence_fields)
  from split_into_segments[OF w k d]
  obtain segs where s: "splitAudioIntoSegments (new_audio_manager False) (silence 44100)
        = Some (Inr segs)"
      "map buffer segs = consecutive_buffers (silence 44100) 13230"
      "map segStartTime segs
        = map (\<lambda>j. rnd (jdiv (Fin (real (j * 13230))) (fl (sampleRate (silence 44100)))))
            [0..<length segs]"
      "map duration segs = replicate (length segs) (segmentDuration (new_audio_manager False))"
      "length segs = (blength (silence 44100) + 13230 - 1) div 13230"
    by (elim exE conjE)
  have l: "length segs = 4" using s(5) by (simp add: silence_fields)
  have b: "map buffer segs = [silence 13230, silence 13230, silence 13230, silence 4410]"
    using s(2) by (simp add: example_buffers)
  have "map (bufferDuration \<circ> buffer) segs = map bufferDuration (map buffer segs)"
    by simp
  also have "\<dots> = [0.3, 0.3, 0.3, 0.1]"
    unfolding b by (simp add: bufferDuration_def silence_fields)
  finally have du: "map (bufferDuration \<circ> buffer) segs = [0.3, 0.3, 0.3, 0.1]" .
  have r4: "replicate 4 x = [x, x, x, x]" for x :: real
    by (simp add: numeral_eq_Suc)
  have nd: "map duration segs = [0.3, 0.3, 0.3, 0.3]"
    using s(4) unfolding l r4 by (simp add: new_audio_manager_def)
  have st: "map segStartTime segs = [Fin 0, fl 0.3, fl 0.6, fl 0.9]"
    using s(3) by (simp add: l upt_4 silence_fields fl_examples(4) fl_zero)
  from s(1) b du nd st show ?thesis
    by (intro conjI exI[of _ segs])
qed

subsection \<open>A step that is not a whole number of samples\<close>

lemmas platform_defs = make_segment_def silence_def createBuffer_def
  numberOfChannels_def getChannelData_def slice_def typed_set_def Let_def
  jsub_def jmin_def trunc_def

text \<open>
  With the segment duration 0.7 at 44100 Hz the step is \<open>30869.999999999996\<close>. The
  first segment gets 30869 frames, and so does its slice. The second segment starts at
  the step: its length \<open>44100 - 30869.999999999996 = 13230.000000000004\<close> makes a
  buffer of 13230 frames, but the slice from \<open>30869.999999999996\<close> to 44100 starts
  at sample 30869 and has 13231 samples, and \<open>set\<close> throws.
\<close>

lemma unrounded_first:
  "make_segment 0.7 (silence 44100) (Fin (8485480987361279 / 2 ^ 38)) (Fin 0)
     = Inr \<lparr>buffer = silence 30869, segStartTime = Fin 0, duration = 0.7\<rparr>"
  by (simp add: platform_defs fl_eval)

lemma unrounded_next:
  "rnd (jadd (Fin 0) (Fin (8485480987361279 / 2 ^ 38))) = Fin (8485480987361279 / 2 ^ 38)"
  by (simp add: fl_eval)

lemma unrounded_second:
  "make_segment 0.7 (silence 44100) (Fin (8485480987361279 / 2 ^ 38))
     (Fin (8485480987361279 / 2 ^ 38)) = Inl RangeError"
  by (simp add: platform_defs fl_eval)

lemma unrounded_loop:
  "split_loop 0.7 (silence 44100) (Fin (8485480987361279 / 2 ^ 38)) (Fin 0) []
     = Some (Inl RangeError)"
  apply (subst split_loop.simps)
  apply (simp only: unrounded_first unrounded_next sum.case silence_fields jlt.simps)
  apply (subst split_loop.simps)
  apply (simp only: unrounded_second sum.case silence_fields jlt.simps)
  apply simp
  done

lemma unrounded_split:
  assumes "segmentDuration m = 0.7"
  shows "splitAudioIntoSegments m (silence 44100) = Some (Inl RangeError)"
  unfolding splitAudioIntoSegments_def assms silence_fields samples_examples
  by (rule unrounded_loop)

text \<open>
  Claim C4 at an input the code breaks it at: the segment duration 0.7 and a 1.0 s buffer
  at 44100 Hz, which holds 30870 samples in 0.7 s. The claim has the buffer split into
  consecutive segments of 0.7 s and the remainder. The code uses the rounded product
  \<open>segmentDuration * sampleRate = 30869.999999999996\<close> as it is, as loop step,
  buffer length and slice bound, and throws a \<open>RangeError\<close> at the second segment:
  no segment is returned and \<open>processAudioFile\<close> fails.
\<close>

theorem split_unrounded_step:
  "setSegmentDuration 0.7 (new_audio_manager False) = Some (None, seven_tenths)
   \<and> (0.7::real) * sampleRate (silence 44100) = 30870
   \<and> rnd (jmul (fl (segmentDuration seven_tenths)) (fl (sampleRate (silence 44100))))
       = Fin (8485480987361279 / 2 ^ 38)
   \<and> splitAudioIntoSegments seven_tenths (silence 44100) = Some (Inl RangeError)
   \<and> processAudioFile ''audio/wav'' (Inr (silence 44100)) True seven_tenths
       = Some (Some (FailedToProcess RangeError), seven_tenths)"
proof -
  have d: "segmentDuration seven_tenths = 0.7"
    "segmentDuration (seven_tenths\<lparr>isProcessing := True\<rparr>) = 0.7"
    by (simp_all add: seven_tenths_def)
  have set: "setSegmentDuration 0.7 (new_audio_manager False) = Some (None, seven_tenths)"
    by (simp add: setSegmentDuration_def reprocessTracks_def seven_tenths_def
        new_audio_manager_def)
  have step: "rnd (jmul (fl (segmentDuration seven_tenths)) (fl (sampleRate (silence 44100))))
       = Fin (8485480987361279 / 2 ^ 38)"
    unfolding d silence_fields by (rule samples_examples(3))
  have sp: "splitAudioIntoSegments seven_tenths (silence 44100) = Some (Inl RangeError)"
    "splitAudioIntoSegments (seven_tenths\<lparr>isProcessing := True\<rparr>) (silence 44100)
       = Some (Inl RangeError)"
    by (rule unrounded_split[OF d(1)], rule unrounded_split[OF d(2)])
  have pr: "processAudioFile ''audio/wav'' (Inr (silence 44100)) True seven_tenths
       = Some (Some (FailedToProcess RangeError), seven_tenths)"
    by (simp add: processAudioFile_def isValidAudioFormat_def MAX_TRACKS_def Let_def sp(2))
       (simp add: seven_tenths_def new_audio_manager_def)
  have whole: "(0.7::real) * sampleRate (silence 44100) = 30870"
    by (simp add: silence_fields)
  from set whole step sp(1) pr show ?thesis by (intro conjI)
qed

subsection \<open>Changing the segment duration\<close>

lemma foldl_total: "foldl (\<lambda>acc segment. acc + blength (buffer segment)) a track
    = a + totalLength track"
  by (induction track arbitrary: a) (simp_all add: totalLength_def)

lemma copy_segment_fold:
  assumes "\<forall>c\<in>set chs. c < length (channelData fb) \<and> c < numberOfChannels (buffer seg)
             \<and> length (channelData (buffer seg) ! c) + off \<le> q"
    and "\<forall>t\<in>set (channelData fb). length t = q"
  shows "copy_segment seg off chs fb =
     Inr (fb\<lparr>channelData :=
            fold (\<lambda>c cd. cd[c := write_at off (channelData (buffer seg) ! c) (cd ! c)])
              chs (channelData fb)\<rparr>)"
  using assms
proof (induction chs arbitrary: fb)
  case Nil
  then show ?case by simp
next
  case (Cons c chs)
  let ?src = "channelData (buffer seg) ! c"
  let ?fb = "fb\<lparr>channelData := (channelData fb)[c := write_at off ?src (channelData fb ! c)]\<rparr>"
  from Cons.prems have c: "c < length (channelData fb)" "c < numberOfChannels (buffer seg)"
    "length ?src + off \<le> q" by simp_all
  from Cons.prems(2) c(1) have t: "length (channelData fb ! c) = q" by simp
  have w: "typed_set (channelData fb ! c) ?src off = Inr (write_at off ?src (channelData fb ! c))"
    using c(3) t by (simp add: typed_set_def write_at_def)
  have lw: "length (write_at off ?src (channelData fb ! c)) = q"
    using c(3) t by (simp add: write_at_def)
  have inv: "\<forall>t\<in>set (channelData ?fb). length t = q"
    using Cons.prems(2) lw by (auto dest!: set_update_subset_insert[THEN subsetD])
  have pre: "\<forall>c\<in>set chs. c < length (channelData ?fb) \<and> c < numberOfChannels (buffer seg)
             \<and> length (channelData (buffer seg) ! c) + off \<le> q"
    using Cons.prems(1) by simp
  show ?case
    using c w Cons.IH[OF pre inv]
    by (simp add: getChannelData_def numberOfChannels_def)
qed

lemma write_at_tail:
  "length pre = off \<Longrightarrow>
     write_at off src (pre @ replicate (length src + r) 0) = pre @ src @ replicate r 0"
  by (simp add: write_at_def)

lemma copy_segments_join:
  assumes "\<forall>s\<in>set rest. numberOfChannels (buffer s) = nch
             \<and> (\<forall>c\<in>set (channelData (buffer s)). length c = blength (buffer s))"
    and "channelData fb = map (\<lambda>c. pre c @ replicate (totalLength rest) 0) [0..<nch]"
    and "\<forall>c<nch. length (pre c) = off"
  shows "copy_segments rest nch off fb =
     Inr (fb\<lparr>channelData :=
            map (\<lambda>c. pre c @ concat (map (\<lambda>s. channelData (buffer s) ! c) rest)) [0..<nch]\<rparr>)"
  using assms
proof (induction rest arbitrary: fb pre off)
  case Nil
  then show ?case by (simp add: totalLength_def)
next
  case (Cons seg rest)
  let ?q = "off + totalLength (seg # rest)"
  have nch: "numberOfChannels (buffer seg) = nch"
    and lens: "\<forall>c\<in>set (channelData (buffer seg)). length c = blength (buffer seg)"
    using Cons.prems(1) by simp_all
  have srclen: "length (channelData (buffer seg) ! c) = blength (buffer seg)" if "c < nch" for c
    using that nch lens by (simp add: numberOfChannels_def)
  have tl: "totalLength (seg # rest) = blength (buffer seg) + totalLength rest"
    by (simp add: totalLength_def)
  have pre: "\<forall>c\<in>set [0..<nch]. c < length (channelData fb) \<and> c < numberOfChannels (buffer seg)
             \<and> length (channelData (buffer seg) ! c) + off \<le> ?q"
    using Cons.prems(2) nch by (simp add: srclen tl)
  have inv: "\<forall>t\<in>set (channelData fb). length t = ?q"
  proof
    fix t assume "t \<in> set (channelData fb)"
    then obtain c where c: "c < nch" and t: "t = pre c @ replicate (totalLength (seg # rest)) 0"
      unfolding Cons.prems(2) by auto
    with Cons.prems(3) show "length t = ?q" by simp
  qed
  have lfb: "length (channelData fb) = nch" using Cons.prems(2) by simp
  have "fold (\<lambda>c cd. cd[c := write_at off (channelData (buffer seg) ! c) (cd ! c)])
          [0..<nch] (channelData fb)
      = map (\<lambda>c. write_at off (channelData (buffer seg) ! c) (channelData fb ! c)) [0..<nch]"
    using fold_channels[of "\<lambda>c. write_at off (channelData (buffer seg) ! c)" "channelData fb"]
    by (simp only: lfb)
  also have "\<dots> = map (\<lambda>c. (pre c @ channelData (buffer seg) ! c) @ replicate (totalLength rest) 0)
                      [0..<nch]"
  proof (rule map_cong[OF refl])
    fix c assume "c \<in> set [0..<nch]"
    then have c: "c < nch" by simp
    have "channelData fb ! c
        = pre c @ replicate (length (channelData (buffer seg) ! c) + totalLength rest) 0"
      using c Cons.prems(2) by (simp add: srclen tl)
    then show "write_at off (channelData (buffer seg) ! c) (channelData fb ! c)
        = (pre c @ channelData (buffer seg) ! c) @ replicate (totalLength rest) 0"
      using c Cons.prems(3) by (simp add: write_at_tail)
  qed
  finally have step: "copy_segment seg off [0..<nch] fb
      = Inr (fb\<lparr>channelData :=
              map (\<lambda>c. (pre c @ channelData (buffer seg) ! c) @ replicate (totalLength rest) 0)
                [0..<nch]\<rparr>)"
    using copy_segment_fold[OF pre inv] by simp
  let ?fb = "fb\<lparr>channelData :=
              map (\<lambda>c. (pre c @ channelData (buffer seg) ! c) @ replicate (totalLength rest) 0)
                [0..<nch]\<rparr>"
  have ih: "copy_segments rest nch (off + blength (buffer seg)) ?fb
      = Inr (?fb\<lparr>channelData :=
               map (\<lambda>c. (pre c @ channelData (buffer seg) ! c)
                          @ concat (map (\<lambda>s. channelData (buffer s) ! c) rest)) [0..<nch]\<rparr>)"
  proof (rule Cons.IH[of ?fb "\<lambda>c. pre c @ channelData (buffer seg) ! c"
        "off + blength (buffer seg)"])
    show "\<forall>s\<in>set rest. numberOfChannels (buffer s) = nch
             \<and> (\<forall>c\<in>set (channelData (buffer s)). length c = blength (buffer s))"
      using Cons.prems(1) by simp
    show "channelData ?fb
        = map (\<lambda>c. (pre c @ channelData (buffer seg) ! c) @ replicate (totalLength rest) 0)
            [0..<nch]"
      by simp
    show "\<forall>c<nch. length (pre c @ channelData (buffer seg) ! c) = off + blength (buffer seg)"
      using Cons.prems(3) by (simp add: srclen)
  qed
  have "copy_segments (seg # rest) nch off fb
      = copy_segments rest nch (off + blength (buffer seg)) ?fb"
    unfolding copy_segments.simps step by (simp only: sum.case)
  also note ih
  finally show ?case by simp
qed

lemma uniform_trackD:
  assumes "uniform_track track"
  shows "track \<noteq> []" "0 < numberOfChannels (buffer (hd track))" "0 < totalLength track"
    "totalLength track < 2 ^ 32" "0 < sampleRate (buffer (hd track))"
    "\<forall>s\<in>set track. numberOfChannels (buffer s) = numberOfChannels (buffer (hd track))
        \<and> (\<forall>c\<in>set (channelData (buffer s)). length c = blength (buffer s))"
    "\<forall>s\<in>set track. sampleRate (buffer s) = sampleRate (buffer (hd track))"
  using assms unfolding uniform_track_def by blast+

text \<open>
  The two loops of the reconstruction compute the concatenation of the segments.
\<close>

lemma reconstruct_joined:
  assumes "uniform_track track"
  shows "reconstruct track = Inr (joined track)"
proof -
  let ?nch = "numberOfChannels (buffer (hd track))"
  let ?fb = "\<lparr>sampleRate = sampleRate (buffer (hd track)), blength = totalLength track,
              channelData = replicate ?nch (replicate (totalLength track) 0)\<rparr>"
  note u = uniform_trackD[OF assms]
  have cb: "createBuffer ?nch (to_unsigned_long (Fin (real (totalLength track))))
              (sampleRate (buffer (hd track))) = Inr ?fb"
    unfolding to_unsigned_long_real[OF u(4)] using u(2,3) by (simp add: createBuffer_def)
  have cs: "copy_segments track ?nch 0 ?fb
      = Inr (?fb\<lparr>channelData :=
               map (\<lambda>c. [] @ concat (map (\<lambda>s. channelData (buffer s) ! c) track)) [0..<?nch]\<rparr>)"
  proof (rule copy_segments_join[of track ?nch ?fb "\<lambda>c. []" 0])
    show "\<forall>s\<in>set track. numberOfChannels (buffer s) = ?nch
             \<and> (\<forall>c\<in>set (channelData (buffer s)). length c = blength (buffer s))"
      by (rule u(6))
    show "channelData ?fb = map (\<lambda>c. [] @ replicate (totalLength track) 0) [0..<?nch]"
      by (simp add: map_replicate_trivial)
    show "\<forall>c<?nch. length ([]::real list) = 0" by simp
  qed
  have "reconstruct track = copy_segments track ?nch 0 ?fb"
    by (simp add: reconstruct_def Let_def foldl_total cb del: to_unsigned_long.simps)
  also note cs
  finally show ?thesis by (simp add: joined_def)
qed

lemma joined_fields:
  "sampleRate (joined track) = sampleRate (buffer (hd track))"
  "blength (joined track) = totalLength track"
  "numberOfChannels (joined track) = numberOfChannels (buffer (hd track))"
  by (simp_all add: joined_def numberOfChannels_def)

lemma length_concat_channel:
  assumes "\<forall>s\<in>set track. c < numberOfChannels (buffer s)
             \<and> (\<forall>t\<in>set (channelData (buffer s)). length t = blength (buffer s))"
  shows "length (concat (map (\<lambda>s. channelData (buffer s) ! c) track)) = totalLength track"
  using assms
proof (induction track)
  case Nil
  then show ?case by (simp add: totalLength_def)
next
  case (Cons s track)
  then have "length (channelData (buffer s) ! c) = blength (buffer s)"
    by (simp add: numberOfChannels_def)
  with Cons show ?case by (simp add: totalLength_def)
qed

lemma well_formed_joined:
  assumes "uniform_track track"
  shows "well_formed (joined track)"
proof -
  note u = uniform_trackD[OF assms]
  have "\<forall>t\<in>set (channelData (joined track)). length t = totalLength track"
  proof
    fix t assume "t \<in> set (channelData (joined track))"
    then obtain c where c: "c < numberOfChannels (buffer (hd track))"
      and t: "t = concat (map (\<lambda>s. channelData (buffer s) ! c) track)"
      by (auto simp: joined_def)
    have "\<forall>s\<in>set track. c < numberOfChannels (buffer s)
             \<and> (\<forall>t\<in>set (channelData (buffer s)). length t = blength (buffer s))"
      using u(6) c by simp
    then show "length t = totalLength track"
      unfolding t by (rule length_concat_channel)
  qed
  with u(2-5) show ?thesis
    by (simp add: well_formed_def joined_fields)
qed

lemma reprocess_one:
  assumes "uniform_track track" and "whole_samples (segmentDuration m) track"
  shows "reconstruct track = Inr (joined track)"
    and "splitAudioIntoSegments m (joined track) = Some (Inr (resplit (segmentDuration m) track))"
proof -
  show "reconstruct track = Inr (joined track)"
    by (rule reconstruct_joined[OF assms(1)])
  show "splitAudioIntoSegments m (joined track) = Some (Inr (resplit (segmentDuration m) track))"
    unfolding resplit_def
    using assms(2)
    by (intro split_whole_samples well_formed_joined[OF assms(1)])
       (simp_all add: whole_samples_def joined_fields)
qed

lemma reprocess_loop_ok:
  assumes "\<forall>t\<in>set tracks. uniform_track t \<and> whole_samples (segmentDuration m) t"
  shows "reprocess_loop tracks m =
     Some (None, m\<lparr>audioTracks := audioTracks m @ map (resplit (segmentDuration m)) tracks,
                  segments := (if audioTracks m = [] \<and> tracks \<noteq> []
                               then resplit (segmentDuration m) (hd tracks)
                               else segments m)\<rparr>)"
  using assms
proof (induction tracks arbitrary: m)
  case Nil
  then show ?case by simp
next
  case (Cons track rest)
  let ?d = "segmentDuration m"
  let ?new = "resplit ?d track"
  let ?m2 = "m\<lparr>audioTracks := audioTracks m @ [?new],
               segments := (if audioTracks m = [] then ?new else segments m)\<rparr>"
  have t: "uniform_track track" "whole_samples ?d track"
    using Cons.prems by simp_all
  have ne: "0 < length track" using uniform_trackD(1)[OF t(1)] by simp
  have d2: "segmentDuration ?m2 = ?d" by simp
  have rest: "\<forall>t\<in>set rest. uniform_track t \<and> whole_samples (segmentDuration ?m2) t"
    using Cons.prems by simp
  have step: "reprocess_loop (track # rest) m = reprocess_loop rest ?m2"
    unfolding reprocess_loop.simps
    by (simp only: ne if_True reprocess_one[OF t] sum.case option.case Let_def)
       (simp add: Let_def)
  show ?case
    unfolding step Cons.IH[OF rest] by (simp add: d2)
qed

lemma segments_not_empty:
  assumes "well_formed b" and "0 < k"
  shows "consecutive_segments d b k \<noteq> []"
    and "hd (consecutive_segments d b k) = segment_at d b k 0"
proof -
  have "0 < (blength b + k - 1) div k"
    using segment_count[OF assms(2), of 0 "blength b"] assms(1) by (simp add: well_formed_def)
  then have "[0..<(blength b + k - 1) div k] = 0 # [Suc 0..<(blength b + k - 1) div k]"
    by (rule upt_conv_Cons)
  then show "consecutive_segments d b k \<noteq> []"
    and "hd (consecutive_segments d b k) = segment_at d b k 0"
    by (simp_all add: consecutive_segments_def)
qed

lemma total_of_segments:
  "totalLength (consecutive_segments d b k) = sum_list (map blength (consecutive_buffers b k))"
proof -
  have "map (\<lambda>s. blength (buffer s)) (consecutive_segments d b k)
      = map blength (map buffer (consecutive_segments d b k))"
    by simp
  then show ?thesis
    unfolding totalLength_def by (simp only: buffers_of_segments(1))
qed

text \<open>
  The round trip: concatenating the segments of a split gives back the buffer that was
  split, sample for sample.
\<close>

lemma joined_split:
  assumes "well_formed b" and "0 < k"
  shows "joined (consecutive_segments d b k) = b"
proof -
  let ?segs = "consecutive_segments d b k"
  note p = consecutive_buffers_props[OF assms]
  note h = segments_not_empty[OF assms, of d]
  have nch: "numberOfChannels (buffer (hd ?segs)) = numberOfChannels b"
    and rate: "sampleRate (buffer (hd ?segs)) = sampleRate b"
    by (simp_all add: h(2) segment_at_def numberOfChannels_def)
  have tot: "totalLength ?segs = blength b"
    by (simp add: total_of_segments p(6))
  have ch: "map (\<lambda>s. channelData (buffer s) ! c) ?segs
          = map (\<lambda>s. channelData s ! c) (consecutive_buffers b k)" for c
    unfolding buffers_of_segments(1)[of d b k, symmetric] by (simp add: comp_def)
  have "map (\<lambda>c. concat (map (\<lambda>s. channelData (buffer s) ! c) ?segs)) [0..<numberOfChannels b]
      = map (\<lambda>c. channelData b ! c) [0..<numberOfChannels b]"
    by (rule map_cong[OF refl]) (simp add: ch p(5))
  also have "\<dots> = channelData b"
    unfolding numberOfChannels_def by (rule map_nth)
  finally have "channelData (joined ?segs) = channelData b"
    by (simp add: joined_def nch)
  then show ?thesis
    by (simp add: joined_fields rate tot)
qed

lemma uniform_split:
  assumes "well_formed b" and "0 < k"
  shows "uniform_track (consecutive_segments d b k)"
proof -
  let ?segs = "consecutive_segments d b k"
  note p = consecutive_buffers_props[OF assms]
  note h = segments_not_empty[OF assms, of d]
  have wf: "0 < numberOfChannels b" "0 < blength b" "blength b < 2 ^ 32" "0 < sampleRate b"
    "\<forall>c\<in>set (channelData b). length c = blength b"
    using assms(1) unfolding well_formed_def by blast+
  have nch: "numberOfChannels (buffer (hd ?segs)) = numberOfChannels b"
    and rate: "sampleRate (buffer (hd ?segs)) = sampleRate b"
    by (simp_all add: h(2) segment_at_def numberOfChannels_def)
  have tot: "totalLength ?segs = blength b"
    by (simp add: total_of_segments p(6))
  have each: "\<forall>s\<in>set ?segs.
            numberOfChannels (buffer s) = numberOfChannels (buffer (hd ?segs))
            \<and> sampleRate (buffer s) = sampleRate (buffer (hd ?segs))
            \<and> (\<forall>c\<in>set (channelData (buffer s)). length c = blength (buffer s))"
    unfolding nch rate using wf(5)
    by (auto simp: consecutive_segments_def segment_at_def numberOfChannels_def min.commute)
  show ?thesis
    unfolding uniform_track_def nch rate tot
    using h(1) wf(1-4) each[unfolded nch rate] by blast
qed

lemma duration_sum:
  assumes "\<forall>s\<in>set track. sampleRate (buffer s) = r"
  shows "sum_list (map (bufferDuration \<circ> buffer) track) = real (totalLength track) / r"
  using assms
  by (induction track) (simp_all add: totalLength_def bufferDuration_def add_divide_distrib)

lemma resplit_props:
  assumes "uniform_track t" and "whole_samples d t"
  shows "joined (resplit d t) = joined t"
    and "map buffer (resplit d t) = consecutive_buffers (joined t) (samplesPerSegment d t)"
    and "totalLength (resplit d t) = totalLength t"
    and "sum_list (map (bufferDuration \<circ> buffer) (resplit d t))
           = sum_list (map (bufferDuration \<circ> buffer) t)"
proof -
  let ?k = "samplesPerSegment d t"
  have k: "0 < ?k" using assms(2) by (simp add: whole_samples_def)
  have wf: "well_formed (joined t)" by (rule well_formed_joined[OF assms(1)])
  show j: "joined (resplit d t) = joined t"
    unfolding resplit_def by (rule joined_split[OF wf k])
  show "map buffer (resplit d t) = consecutive_buffers (joined t) ?k"
    unfolding resplit_def by (rule buffers_of_segments)
  have "blength (joined (resplit d t)) = blength (joined t)" by (simp add: j)
  then show tot: "totalLength (resplit d t) = totalLength t"
    by (simp add: joined_fields)
  note u = uniform_trackD[OF uniform_split[OF wf k, of d, folded resplit_def]]
  have r: "sampleRate (buffer (hd (resplit d t))) = sampleRate (buffer (hd t))"
    using arg_cong[OF j, of sampleRate] by (simp add: joined_fields)
  have "sum_list (map (bufferDuration \<circ> buffer) (resplit d t))
      = real (totalLength (resplit d t)) / sampleRate (buffer (hd t))"
    using u(7) by (intro duration_sum) (simp add: r)
  also have "\<dots> = sum_list (map (bufferDuration \<circ> buffer) t)"
    unfolding tot by (rule duration_sum[OF uniform_trackD(7)[OF assms(1)], symmetric])
  finally show "sum_list (map (bufferDuration \<circ> buffer) (resplit d t))
           = sum_list (map (bufferDuration \<circ> buffer) t)" .
qed

lemma setSegmentDuration_ok:
  assumes "0 < d" and "\<forall>t\<in>set (audioTracks m). uniform_track t \<and> whole_samples d t"
  shows "setSegmentDuration d m =
     Some (None, m\<lparr>segmentDuration := d,
                  audioTracks := map (resplit d) (audioTracks m),
                  segments := (if audioTracks m = [] then []
                               else resplit d (hd (audioTracks m)))\<rparr>)"
proof -
  let ?m0 = "m\<lparr>segmentDuration := d, audioTracks := [], segments := []\<rparr>"
  have pre: "\<forall>t\<in>set (audioTracks m). uniform_track t \<and> whole_samples (segmentDuration ?m0) t"
    using assms(2) by simp
  have "setSegmentDuration d m = reprocess_loop (audioTracks m) ?m0"
    using assms(1) by (simp add: setSegmentDuration_def reprocessTracks_def Let_def)
  also note reprocess_loop_ok[OF pre]
  finally show ?thesis by simp
qed

text \<open>
  For a new duration \<open>d > 0\<close> whose step is a whole number of samples of every
  track, \<open>setSegmentDuration\<close> succeeds and replaces every track: the
  reconstruction is the concatenation of the old segments in order, the new segments are
  the consecutive segments of that buffer, and concatenating the new segments gives the
  same buffer again, so the samples, their number and the total length in seconds are
  those of before.
\<close>

lemma resegmentation_roundtrip:
  assumes "0 < d" and "\<forall>t\<in>set (audioTracks m). uniform_track t \<and> whole_samples d t"
  shows "\<exists>m'. setSegmentDuration d m = Some (None, m')
           \<and> segmentDuration m' = d
           \<and> length (audioTracks m') = length (audioTracks m)
           \<and> (\<forall>i<length (audioTracks m).
                 reconstruct (audioTracks m ! i) = Inr (joined (audioTracks m ! i))
                 \<and> map buffer (audioTracks m' ! i)
                     = consecutive_buffers (joined (audioTracks m ! i))
                         (samplesPerSegment d (audioTracks m ! i))
                 \<and> joined (audioTracks m' ! i) = joined (audioTracks m ! i)
                 \<and> totalLength (audioTracks m' ! i) = totalLength (audioTracks m ! i)
                 \<and> sum_list (map (bufferDuration \<circ> buffer) (audioTracks m' ! i))
                     = sum_list (map (bufferDuration \<circ> buffer) (audioTracks m ! i)))"
proof -
  let ?m' = "m\<lparr>segmentDuration := d,
                audioTracks := map (resplit d) (audioTracks m),
                segments := (if audioTracks m = [] then []
                             else resplit d (hd (audioTracks m)))\<rparr>"
  have each: "reconstruct (audioTracks m ! i) = Inr (joined (audioTracks m ! i))
      \<and> map buffer (audioTracks ?m' ! i)
          = consecutive_buffers (joined (audioTracks m ! i))
              (samplesPerSegment d (audioTracks m ! i))
      \<and> joined (audioTracks ?m' ! i) = joined (audioTracks m ! i)
      \<and> totalLength (audioTracks ?m' ! i) = totalLength (audioTracks m ! i)
      \<and> sum_list (map (bufferDuration \<circ> buffer) (audioTracks ?m' ! i))
          = sum_list (map (bufferDuration \<circ> buffer) (audioTracks m ! i))"
    if "i < length (audioTracks m)" for i
  proof -
    from that assms(2) have t: "uniform_track (audioTracks m ! i)"
      "whole_samples d (audioTracks m ! i)" by simp_all
    have n: "audioTracks ?m' ! i = resplit d (audioTracks m ! i)"
      using that by simp
    show ?thesis
      unfolding n using reconstruct_joined[OF t(1)] resplit_props[OF t] by blast
  qed
  have "setSegmentDuration d m = Some (None, ?m')"
    by (rule setSegmentDuration_ok[OF assms])
  moreover have "segmentDuration ?m' = d" "length (audioTracks ?m') = length (audioTracks m)"
    by simp_all
  ultimately show ?thesis using each
    by (intro exI[of _ ?m']) simp
qed

lemma example_track:
  "uniform_track (consecutive_segments 0.3 (silence 44100) 13230)"
  "joined (consecutive_segments 0.3 (silence 44100) 13230) = silence 44100"
  "sampleRate (buffer (hd (consecutive_segments 0.3 (silence 44100) 13230))) = 44100"
proof -
  have w: "well_formed (silence 44100)" by (simp add: well_formed_silence)
  have k: "(0::nat) < 13230" by simp
  show "uniform_track (consecutive_segments 0.3 (silence 44100) 13230)"
    by (rule uniform_split[OF w k])
  show "joined (consecutive_segments 0.3 (silence 44100) 13230) = silence 44100"
    by (rule joined_split[OF w k])
  show "sampleRate (buffer (hd (consecutive_segments 0.3 (silence 44100) 13230))) = 44100"
    unfolding segments_not_empty(2)[OF w k] by (simp add: segment_at_def silence_fields)
qed

lemma two_segments: "(44100 + 22050 - 1) div 22050 = (2::nat)"
  by simp

lemma upt_2: "[0..<2] = [0, Suc 0]"
  by code_simp

lemma halves: "consecutive_buffers (silence 44100) 22050 = [silence 22050, silence 22050]"
  by (simp add: consecutive_buffers_def silence_fields two_segments upt_2 silence_def)

text \<open>
  The example of the specification: the example track, split at 0.3, is changed to 0.5:
  two segments of 22050 samples, 0.5 s each, 1.0 s in all, and the same 44100 samples.
\<close>

lemma resegmentation_example:
  "\<exists>m'. setSegmentDuration 0.5 one_track = Some (None, m')
      \<and> length (audioTracks m') = 1
      \<and> map buffer (audioTracks m' ! 0) = [silence 22050, silence 22050]
      \<and> map (bufferDuration \<circ> buffer) (audioTracks m' ! 0) = [0.5, 0.5]
      \<and> joined (audioTracks m' ! 0) = silence 44100
      \<and> sum_list (map (bufferDuration \<circ> buffer) (audioTracks m' ! 0)) = 1"
proof -
  let ?t = "consecutive_segments 0.3 (silence 44100) 13230"
  have tr: "audioTracks one_track = [?t]" by (simp add: one_track_def)
  have k: "(22050::nat) < 2 ^ 32" by simp
  have sp: "samplesPerSegment 0.5 ?t = 22050"
    unfolding samplesPerSegment_def example_track(3) samples_examples(2)
    by (rule to_unsigned_long_real[OF k])
  have ws: "whole_samples 0.5 ?t"
    unfolding whole_samples_def sp example_track(3) samples_examples(2) by simp
  have d: "(0::real) < 0.5" by simp
  have h: "\<forall>t\<in>set (audioTracks one_track). uniform_track t \<and> whole_samples 0.5 t"
    unfolding tr using example_track(1) ws by simp
  from resegmentation_roundtrip[OF d h]
  obtain m' where m: "setSegmentDuration 0.5 one_track = Some (None, m')"
      "length (audioTracks m') = length (audioTracks one_track)"
      "\<forall>i<length (audioTracks one_track).
          reconstruct (audioTracks one_track ! i) = Inr (joined (audioTracks one_track ! i))
          \<and> map buffer (audioTracks m' ! i)
              = consecutive_buffers (joined (audioTracks one_track ! i))
                  (samplesPerSegment 0.5 (audioTracks one_track ! i))
          \<and> joined (audioTracks m' ! i) = joined (audioTracks one_track ! i)
          \<and> totalLength (audioTracks m' ! i) = totalLength (audioTracks one_track ! i)
          \<and> sum_list (map (bufferDuration \<circ> buffer) (audioTracks m' ! i))
              = sum_list (map (bufferDuration \<circ> buffer) (audioTracks one_track ! i))"
    by (elim exE conjE)
  from m(3) have z: "map buffer (audioTracks m' ! 0)
        = consecutive_buffers (joined ?t) (samplesPerSegment 0.5 ?t)"
      "joined (audioTracks m' ! 0) = joined ?t"
    by (simp_all add: tr)
  have l: "length (audioTracks m') = 1" using m(2) by (simp add: tr)
  have b: "map buffer (audioTracks m' ! 0) = [silence 22050, silence 22050]"
    using z(1) unfolding example_track(2) sp halves .
  have j: "joined (audioTracks m' ! 0) = silence 44100"
    using z(2) by (simp add: example_track(2))
  have "map (bufferDuration \<circ> buffer) (audioTracks m' ! 0)
      = map bufferDuration (map buffer (audioTracks m' ! 0))" by simp
  also have "\<dots> = [0.5, 0.5]"
    unfolding b by (simp add: bufferDuration_def silence_fields)
  finally have du: "map (bufferDuration \<circ> buffer) (audioTracks m' ! 0) = [0.5, 0.5]" .
  then have su: "sum_list (map (bufferDuration \<circ> buffer) (audioTracks m' ! 0)) = 1"
    by simp
  from m(1) l b du j su show ?thesis
    by (intro conjI exI[of _ m'])
qed

text \<open>
  Claim C5 at an input the code breaks it at: the example track, uploaded at the segment
  duration 0.3, and the new duration 0.7, in which the track holds 30870 samples. The
  reconstruction gives back the buffer that was uploaded, but the split of it throws the
  \<open>RangeError\<close> of the unrounded step after \<open>reprocessTracks\<close> has emptied
  the track list: the promise is rejected and the manager is left without a track and
  without a sample, where the claim has the track re-split with its samples preserved.
\<close>

theorem resegmentation_loses_tracks:
  "processAudioFile ''audio/wav'' (Inr (silence 44100)) True (new_audio_manager False)
     = Some (None, one_track)
   \<and> length (audioTracks one_track) = 1
   \<and> map (blength \<circ> buffer) (hd (audioTracks one_track)) = [13230, 13230, 13230, 4410]
   \<and> reconstruct (hd (audioTracks one_track)) = Inr (silence 44100)
   \<and> (0.7::real) * sampleRate (silence 44100) = 30870
   \<and> setSegmentDuration 0.7 one_track
       = Some (Some RangeError,
               one_track\<lparr>segmentDuration := 0.7, audioTracks := [], segments := []\<rparr>)"
proof -
  let ?t = "consecutive_segments 0.3 (silence 44100) 13230"
  let ?m0 = "one_track\<lparr>segmentDuration := 0.7, audioTracks := [], segments := []\<rparr>"
  have tr: "audioTracks one_track = [?t]" by (simp add: one_track_def)
  have ne: "0 < length ?t" using uniform_trackD(1)[OF example_track(1)] by simp
  have rc: "reconstruct ?t = Inr (silence 44100)"
    using reconstruct_joined[OF example_track(1)] by (simp add: example_track(2))
  have "map (blength \<circ> buffer) ?t = map blength (map buffer ?t)" by simp
  also have "\<dots> = [13230, 13230, 13230, 4410]"
    unfolding buffers_of_segments(1) example_buffers by (simp add: silence_fields)
  finally have bl: "map (blength \<circ> buffer) ?t = [13230, 13230, 13230, 4410]" .
  have sp: "splitAudioIntoSegments ?m0 (silence 44100) = Some (Inl RangeError)"
    by (rule unrounded_split) simp
  have "reprocess_loop [?t] ?m0 = Some (Some RangeError, ?m0)"
    unfolding reprocess_loop.simps
    by (simp only: ne if_True rc sum.case sp option.case)
  then have set: "setSegmentDuration 0.7 one_track = Some (Some RangeError, ?m0)"
    by (simp add: setSegmentDuration_def reprocessTracks_def Let_def tr)
  have whole: "(0.7::real) * sampleRate (silence 44100) = 30870"
    by (simp add: silence_fields)
  from upload_one_track tr rc bl whole set show ?thesis by simp
qed

end
